theory Spec2Isabelle
  imports Main "HOL-Library.AList" "HOL-Library.Multiset"
begin

section \<open>Python values and their string forms\<close>

text \<open>
  Payloads, votes and consensus results are what \<^verbatim>\<open>json.loads\<close> produces and
  \<^verbatim>\<open>json.dumps\<close> accepts: \<^verbatim>\<open>None\<close>, booleans, integers, strings, lists and
  dictionaries with string keys. A dictionary is an association list in insertion order
  (Python dictionaries iterate in that order). Floating-point numbers are left out.
  Strings are lists of 8-bit characters, read as the code points 0 to 255.
\<close>

datatype json =
    JNull
  | JBool bool
  | JInt int
  | JStr string
  | JList "json list"
  | JObj "(string \<times> json) list"

type_synonym pydict = "(string \<times> json) list"

text \<open>\<^verbatim>\<open>sep.join(parts)\<close>\<close>

fun str_join :: "string \<Rightarrow> string list \<Rightarrow> string" where
  "str_join sep [] = []"
| "str_join sep [x] = x"
| "str_join sep (x # y # ys) = x @ sep @ str_join sep (y # ys)"

text \<open>\<^verbatim>\<open>str(n)\<close> for an integer: decimal digits, a minus sign for negatives.\<close>

fun str_nat :: "nat \<Rightarrow> string" where
  "str_nat n =
     (if n < 10 then [''0123456789'' ! n]
      else str_nat (n div 10) @ [''0123456789'' ! (n mod 10)])"

declare str_nat.simps [simp del]

definition str_int :: "int \<Rightarrow> string" where
  "str_int i = (if i < 0 then CHR ''-'' # str_nat (nat (- i)) else str_nat (nat i))"

definition hex2 :: "char \<Rightarrow> string" where
  "hex2 c = [''0123456789abcdef'' ! ((of_char c :: nat) div 16),
             ''0123456789abcdef'' ! ((of_char c :: nat) mod 16)]"

text \<open>
  \<^verbatim>\<open>repr(s)\<close> for a string: single quotes, unless the string holds a single quote and
  no double quote; the quote and the backslash are escaped, tab, newline and carriage
  return are written \<^verbatim>\<open>\t \n \r\<close>, and every other non-printable code point
  below 256 is written \<^verbatim>\<open>\xhh\<close>.
\<close>

definition repr_printable :: "char \<Rightarrow> bool" where
  "repr_printable c =
     (let n = (of_char c :: nat) in (32 \<le> n \<and> n < 127) \<or> (161 \<le> n \<and> n \<noteq> 173))"

definition repr_char :: "char \<Rightarrow> char \<Rightarrow> string" where
  "repr_char q c =
     (if c = q \<or> c = CHR 0x5C then [CHR 0x5C, c]
      else if c = CHR 0x09 then [CHR 0x5C, CHR ''t'']
      else if c = CHR 0x0A then [CHR 0x5C, CHR ''n'']
      else if c = CHR 0x0D then [CHR 0x5C, CHR ''r'']
      else if repr_printable c then [c]
      else [CHR 0x5C, CHR ''x''] @ hex2 c)"

definition repr_str :: "string \<Rightarrow> string" where
  "repr_str s =
     (let q = (if CHR 0x27 \<in> set s \<and> CHR 0x22 \<notin> set s then CHR 0x22 else CHR 0x27)
      in [q] @ concat (map (repr_char q) s) @ [q])"

primrec py_repr :: "json \<Rightarrow> string" where
  "py_repr JNull = ''None''"
| "py_repr (JBool b) = (if b then ''True'' else ''False'')"
| "py_repr (JInt i) = str_int i"
| "py_repr (JStr s) = repr_str s"
| "py_repr (JList xs) = ''['' @ str_join '', '' (map py_repr xs) @ '']''"
| "py_repr (JObj kvs) =
     ''{'' @ str_join '', ''
        (map (\<lambda>(k, r). repr_str k @ '': '' @ r) (map (map_prod id py_repr) kvs)) @ ''}''"

text \<open>\<^verbatim>\<open>str(v)\<close>: a string is itself, every other value is its \<^verbatim>\<open>repr\<close>.\<close>

definition py_str :: "json \<Rightarrow> string" where
  "py_str v = (case v of JStr s \<Rightarrow> s | _ \<Rightarrow> py_repr v)"

text \<open>An \<^verbatim>\<open>Optional[str]\<close> inside an f-string.\<close>

definition str_opt :: "string option \<Rightarrow> string" where
  "str_opt x = (case x of None \<Rightarrow> ''None'' | Some s \<Rightarrow> s)"

text \<open>\<^verbatim>\<open>d.get(k)\<close> and \<^verbatim>\<open>d.get(k, default)\<close>\<close>

definition dict_get :: "pydict \<Rightarrow> string \<Rightarrow> json" where
  "dict_get d k = (case map_of d k of None \<Rightarrow> JNull | Some v \<Rightarrow> v)"

definition dict_get_default :: "pydict \<Rightarrow> string \<Rightarrow> json \<Rightarrow> json" where
  "dict_get_default d k dflt = (case map_of d k of None \<Rightarrow> dflt | Some v \<Rightarrow> v)"

text \<open>Truthiness, as \<^verbatim>\<open>if not v\<close> tests it.\<close>

fun truthy :: "json \<Rightarrow> bool" where
  "truthy JNull = False"
| "truthy (JBool b) = b"
| "truthy (JInt i) = (i \<noteq> 0)"
| "truthy (JStr s) = (s \<noteq> [])"
| "truthy (JList xs) = (xs \<noteq> [])"
| "truthy (JObj kvs) = (kvs \<noteq> [])"

text \<open>
  Dictionary keys: lists and dictionaries are unhashable (\<^verbatim>\<open>TypeError\<close>), and
  \<^verbatim>\<open>True\<close> and \<^verbatim>\<open>False\<close> are the same keys as 1 and 0.
\<close>

fun hashable :: "json \<Rightarrow> bool" where
  "hashable (JList xs) = False"
| "hashable (JObj kvs) = False"
| "hashable v = True"

fun dict_key :: "json \<Rightarrow> json" where
  "dict_key (JBool b) = JInt (if b then 1 else 0)"
| "dict_key v = v"

text \<open>
  Exceptions are values: a function that can raise returns a sum, the exception on the
  left. \<^verbatim>\<open>Unsupported\<close> is no Python exception: it marks an input that leaves
  this model (a floating-point number, a code point above 255, a field value outside
  the type the dataclass declares for it).
\<close>

datatype exn =
    TypeError string
  | AttributeError string
  | KeyError string
  | SystemExit int
  | JSONDecodeError string
  | RecursionError
  | Unsupported string

section \<open>The message envelope (agents/specialized/communication.py)\<close>

text \<open>
  The dataclass \<^verbatim>\<open>AgentMessage\<close> with its five fields; \<^verbatim>\<open>receiver_id\<close> and
  \<^verbatim>\<open>task_id\<close> default to \<^verbatim>\<open>None\<close>.
\<close>

record AgentMessage =
  sender_id :: string
  receiver_id :: "string option"
  message_type :: string
  payload :: pydict
  task_id :: "string option"

definition TASK_EXCHANGE :: string where "TASK_EXCHANGE = ''task_exchange''"
definition RESULT_EXCHANGE :: string where "RESULT_EXCHANGE = ''result_exchange''"
definition VOTE_EXCHANGE :: string where "VOTE_EXCHANGE = ''vote_exchange''"
definition BROADCAST_EXCHANGE :: string where "BROADCAST_EXCHANGE = ''broadcast_exchange''"

subsection \<open>\<^verbatim>\<open>json.dumps\<close> with its default settings\<close>

text \<open>
  Separators are \<^verbatim>\<open>", "\<close> and \<^verbatim>\<open>": "\<close>; with \<^verbatim>\<open>ensure_ascii\<close> every character
  outside the range from space to tilde is escaped, as are the double quote and the
  backslash.
\<close>

definition dumps_char :: "char \<Rightarrow> string" where
  "dumps_char c =
     (if c = CHR 0x22 then [CHR 0x5C, CHR 0x22]
      else if c = CHR 0x5C then [CHR 0x5C, CHR 0x5C]
      else if c = CHR 0x0A then [CHR 0x5C, CHR ''n'']
      else if c = CHR 0x0D then [CHR 0x5C, CHR ''r'']
      else if c = CHR 0x09 then [CHR 0x5C, CHR ''t'']
      else if c = CHR 0x08 then [CHR 0x5C, CHR ''b'']
      else if c = CHR 0x0C then [CHR 0x5C, CHR ''f'']
      else if 32 \<le> (of_char c :: nat) \<and> (of_char c :: nat) \<le> 126 then [c]
      else [CHR 0x5C, CHR ''u'', CHR ''0'', CHR ''0''] @ hex2 c)"

definition dumps_str :: "string \<Rightarrow> string" where
  "dumps_str s = [CHR 0x22] @ concat (map dumps_char s) @ [CHR 0x22]"

primrec dumps :: "json \<Rightarrow> string" where
  "dumps JNull = ''null''"
| "dumps (JBool b) = (if b then ''true'' else ''false'')"
| "dumps (JInt i) = str_int i"
| "dumps (JStr s) = dumps_str s"
| "dumps (JList xs) = ''['' @ str_join '', '' (map dumps xs) @ '']''"
| "dumps (JObj kvs) =
     ''{'' @ str_join '', ''
        (map (\<lambda>(k, r). dumps_str k @ '': '' @ r) (map (map_prod id dumps) kvs)) @ ''}''"

definition opt_json :: "string option \<Rightarrow> json" where
  "opt_json x = (case x of None \<Rightarrow> JNull | Some s \<Rightarrow> JStr s)"

text \<open>\<^verbatim>\<open>dataclasses.asdict\<close>: the fields in declaration order.\<close>

definition asdict :: "AgentMessage \<Rightarrow> pydict" where
  "asdict m =
     [(''sender_id'', JStr (sender_id m)),
      (''receiver_id'', opt_json (receiver_id m)),
      (''message_type'', JStr (message_type m)),
      (''payload'', JObj (payload m)),
      (''task_id'', opt_json (task_id m))]"

definition to_json :: "AgentMessage \<Rightarrow> string" where
  "to_json m = dumps (JObj (asdict m))"

subsection \<open>The dataclass declaration\<close>

text \<open>
  The fields of \<^verbatim>\<open>AgentMessage\<close> in the order the source declares them, each with
  whether it has a default value, and the check the \<^verbatim>\<open>@dataclass\<close> decorator makes
  when it builds \<^verbatim>\<open>__init__\<close>: a field without a default may not follow a field
  with one (\<^verbatim>\<open>TypeError\<close> when the class statement runs). The record
  \<^typ>\<open>AgentMessage\<close> above is the class the declaration describes, with every
  field passed by keyword, as all callers in the repository do.
\<close>

definition AgentMessage_fields :: "(string \<times> bool) list" where
  "AgentMessage_fields =
     [(''sender_id'', False), (''receiver_id'', True), (''message_type'', False),
      (''payload'', False), (''task_id'', True)]"

fun dataclass_init_check :: "bool \<Rightarrow> (string \<times> bool) list \<Rightarrow> exn + unit" where
  "dataclass_init_check seen_default [] = Inr ()"
| "dataclass_init_check seen_default ((name, has_default) # rest) =
     (if has_default then dataclass_init_check True rest
      else if seen_default
      then Inl (TypeError (''non-default argument '' @ repr_str name
                             @ '' follows default argument''))
      else dataclass_init_check seen_default rest)"

subsection \<open>\<^verbatim>\<open>json.loads\<close>\<close>

text \<open>
  The decoder, as the standard library's scanner reads a text: white space is skipped
  between tokens, a string ends at the first unescaped double quote, a number is an
  optional minus sign and digits without a leading zero, and a repeated key of an object
  keeps its first place and its last value. Numbers with a fraction or an exponent,
  \<^verbatim>\<open>NaN\<close> and the infinities are floating point and outside this model, as are
  escaped code points above 255.
\<close>

definition is_ws :: "char \<Rightarrow> bool" where
  "is_ws c = (c = CHR '' '' \<or> c = CHR 0x09 \<or> c = CHR 0x0A \<or> c = CHR 0x0D)"

definition skip_ws :: "string \<Rightarrow> string" where
  "skip_ws s = dropWhile is_ws s"

definition is_digit :: "char \<Rightarrow> bool" where
  "is_digit c = (48 \<le> (of_char c :: nat) \<and> (of_char c :: nat) \<le> 57)"

definition hex_val :: "char \<Rightarrow> nat option" where
  "hex_val c =
     (let n = (of_char c :: nat)
      in if 48 \<le> n \<and> n \<le> 57 then Some (n - 48)
         else if 97 \<le> n \<and> n \<le> 102 then Some (n - 87)
         else if 65 \<le> n \<and> n \<le> 70 then Some (n - 55)
         else None)"

definition hex4 :: "char \<Rightarrow> char \<Rightarrow> char \<Rightarrow> char \<Rightarrow> nat option" where
  "hex4 a b c d =
     (case (hex_val a, hex_val b, hex_val c, hex_val d) of
        (Some w, Some x, Some y, Some z) \<Rightarrow> Some (((w * 16 + x) * 16 + y) * 16 + z)
      | _ \<Rightarrow> None)"

definition unescape :: "char \<Rightarrow> char option" where
  "unescape e =
     (if e = CHR 0x22 then Some (CHR 0x22)
      else if e = CHR 0x5C then Some (CHR 0x5C)
      else if e = CHR ''/'' then Some (CHR ''/'')
      else if e = CHR ''b'' then Some (CHR 0x08)
      else if e = CHR ''f'' then Some (CHR 0x0C)
      else if e = CHR ''n'' then Some (CHR 0x0A)
      else if e = CHR ''r'' then Some (CHR 0x0D)
      else if e = CHR ''t'' then Some (CHR 0x09)
      else None)"

fun scanstring :: "string \<Rightarrow> exn + string \<times> string" where
  "scanstring [] = Inl (JSONDecodeError ''Unterminated string starting at'')"
| "scanstring (c # cs) =
     (if c = CHR 0x22 then Inr ([], cs)
      else if c = CHR 0x5C then
        (case cs of
           [] \<Rightarrow> Inl (JSONDecodeError ''Unterminated string starting at'')
         | e # cs1 \<Rightarrow>
             if e = CHR ''u'' then
               (case cs1 of
                  h1 # h2 # h3 # h4 # cs2 \<Rightarrow>
                    (case hex4 h1 h2 h3 h4 of
                       None \<Rightarrow> Inl (JSONDecodeError ''Invalid uXXXX escape'')
                     | Some n \<Rightarrow>
                         if n < 256 then
                           (case scanstring cs2 of
                              Inl err \<Rightarrow> Inl err
                            | Inr (s, rest) \<Rightarrow> Inr (char_of n # s, rest))
                         else Inl (Unsupported ''code point above 255''))
                | _ \<Rightarrow> Inl (JSONDecodeError ''Invalid uXXXX escape''))
             else
               (case unescape e of
                  None \<Rightarrow> Inl (JSONDecodeError ''Invalid escape'')
                | Some ch \<Rightarrow>
                    (case scanstring cs1 of
                       Inl err \<Rightarrow> Inl err
                     | Inr (s, rest) \<Rightarrow> Inr (ch # s, rest))))
      else if (of_char c :: nat) < 32 then
        Inl (JSONDecodeError ''Invalid control character at'')
      else
        (case scanstring cs of
           Inl err \<Rightarrow> Inl err
         | Inr (s, rest) \<Rightarrow> Inr (c # s, rest)))"

text \<open>
  The integer part of the number pattern, and whether a fraction or an exponent follows.
\<close>

definition digits_val :: "string \<Rightarrow> nat" where
  "digits_val ds = foldl (\<lambda>a c. 10 * a + ((of_char c :: nat) - 48)) 0 ds"

definition is_float_tail :: "string \<Rightarrow> bool" where
  "is_float_tail rest =
     (case rest of
        [] \<Rightarrow> False
      | c # cs \<Rightarrow>
          if c = CHR ''.'' then (case cs of [] \<Rightarrow> False | d # ds \<Rightarrow> is_digit d)
          else if c = CHR ''e'' \<or> c = CHR ''E'' then
            (case cs of
               [] \<Rightarrow> False
             | d # ds \<Rightarrow>
                 if d = CHR ''+'' \<or> d = CHR ''-''
                 then (case ds of [] \<Rightarrow> False | d2 # ds2 \<Rightarrow> is_digit d2)
                 else is_digit d)
          else False)"

definition match_number :: "string \<Rightarrow> exn + json \<times> string" where
  "match_number s =
     (let neg = (s \<noteq> [] \<and> hd s = CHR ''-'');
          s1 = (if neg then tl s else s)
      in case s1 of
           [] \<Rightarrow> Inl (JSONDecodeError ''Expecting value'')
         | d # ds \<Rightarrow>
             if \<not> is_digit d then Inl (JSONDecodeError ''Expecting value'')
             else
               (let int_digits = (if d = CHR ''0'' then [d] else takeWhile is_digit s1);
                    rest = drop (length int_digits) s1
                in if is_float_tail rest then Inl (Unsupported ''float'')
                   else Inr (JInt ((if neg then - 1 else 1) * int (digits_val int_digits)),
                             rest)))"

definition starts_with :: "string \<Rightarrow> string \<Rightarrow> bool" where
  "starts_with p s = (take (length p) s = p)"

text \<open>\<^verbatim>\<open>dict(pairs)\<close>: a repeated key keeps its first place and takes the last value.\<close>

definition dict_of_pairs :: "pydict \<Rightarrow> pydict" where
  "dict_of_pairs pairs = foldl (\<lambda>d (k, v). AList.update k v d) [] pairs"

text \<open>
  The scanner proper. Its first argument bounds the depth of the recursion; the decoder
  below starts it at twice the length of the text plus one.
\<close>

fun scan_once :: "nat \<Rightarrow> string \<Rightarrow> exn + json \<times> string"
and parse_array :: "nat \<Rightarrow> string \<Rightarrow> json list \<Rightarrow> exn + json \<times> string"
and parse_object :: "nat \<Rightarrow> string \<Rightarrow> pydict \<Rightarrow> exn + json \<times> string" where
  "scan_once 0 s = Inl RecursionError"
| "scan_once (Suc n) s =
     (case s of
        [] \<Rightarrow> Inl (JSONDecodeError ''Expecting value'')
      | c # cs \<Rightarrow>
          if c = CHR 0x22 then
            (case scanstring cs of
               Inl err \<Rightarrow> Inl err
             | Inr (str, rest) \<Rightarrow> Inr (JStr str, rest))
          else if c = CHR ''{'' then
            (case skip_ws cs of
               [] \<Rightarrow> Inl (JSONDecodeError
                           ''Expecting property name enclosed in double quotes'')
             | c1 # rest \<Rightarrow>
                 if c1 = CHR ''}'' then Inr (JObj [], rest)
                 else parse_object n (c1 # rest) [])
          else if c = CHR ''['' then
            (case skip_ws cs of
               [] \<Rightarrow> Inl (JSONDecodeError ''Expecting value'')
             | c1 # rest \<Rightarrow>
                 if c1 = CHR '']'' then Inr (JList [], rest)
                 else parse_array n (c1 # rest) [])
          else if starts_with ''null'' s then Inr (JNull, drop 4 s)
          else if starts_with ''true'' s then Inr (JBool True, drop 4 s)
          else if starts_with ''false'' s then Inr (JBool False, drop 5 s)
          else if starts_with ''NaN'' s \<or> starts_with ''Infinity'' s
                  \<or> starts_with ''-Infinity'' s then Inl (Unsupported ''float'')
          else match_number s)"
| "parse_array 0 s acc = Inl RecursionError"
| "parse_array (Suc n) s acc =
     (case scan_once n s of
        Inl err \<Rightarrow> Inl err
      | Inr (v, rest) \<Rightarrow>
          (case skip_ws rest of
             [] \<Rightarrow> Inl (JSONDecodeError ''Expecting , delimiter'')
           | c # rest1 \<Rightarrow>
               if c = CHR '']'' then Inr (JList (acc @ [v]), rest1)
               else if c = CHR '','' then parse_array n (skip_ws rest1) (acc @ [v])
               else Inl (JSONDecodeError ''Expecting , delimiter'')))"
| "parse_object 0 s pairs = Inl RecursionError"
| "parse_object (Suc n) s pairs =
     (case s of
        [] \<Rightarrow> Inl (JSONDecodeError ''Expecting property name enclosed in double quotes'')
      | q # cs \<Rightarrow>
          if q \<noteq> CHR 0x22
          then Inl (JSONDecodeError ''Expecting property name enclosed in double quotes'')
          else
            (case scanstring cs of
               Inl err \<Rightarrow> Inl err
             | Inr (key, rest) \<Rightarrow>
                 (case skip_ws rest of
                    [] \<Rightarrow> Inl (JSONDecodeError ''Expecting : delimiter'')
                  | c # rest1 \<Rightarrow>
                      if c \<noteq> CHR '':'' then Inl (JSONDecodeError ''Expecting : delimiter'')
                      else
                        (case scan_once n (skip_ws rest1) of
                           Inl err \<Rightarrow> Inl err
                         | Inr (v, rest2) \<Rightarrow>
                             (case skip_ws rest2 of
                                [] \<Rightarrow> Inl (JSONDecodeError ''Expecting , delimiter'')
                              | c2 # rest3 \<Rightarrow>
                                  if c2 = CHR ''}''
                                  then Inr (JObj (dict_of_pairs (pairs @ [(key, v)])), rest3)
                                  else if c2 = CHR '',''
                                  then parse_object n (skip_ws rest3) (pairs @ [(key, v)])
                                  else Inl (JSONDecodeError ''Expecting , delimiter''))))))"

definition loads :: "string \<Rightarrow> exn + json" where
  "loads s =
     (case scan_once (2 * length s + 1) (skip_ws s) of
        Inl err \<Rightarrow> Inl err
      | Inr (v, rest) \<Rightarrow>
          if skip_ws rest = [] then Inr v else Inl (JSONDecodeError ''Extra data''))"

subsection \<open>\<^verbatim>\<open>AgentMessage.from_json\<close>\<close>

text \<open>
  The class is called with the decoded value as its keyword arguments
  (\<^verbatim>\<open>cls\<close> applied to \<^verbatim>\<open>json.loads(json_str)\<close>, unpacked): the decoded
  value must be an object, every key
  of it a field name, and the three fields without default present. The dataclass does
  not check the types of the values; a value outside the declared type of its field is
  outside the record and answered with \<^verbatim>\<open>Unsupported\<close>.
\<close>

definition opt_str_field :: "json option \<Rightarrow> string option option" where
  "opt_str_field v =
     (case v of
        None \<Rightarrow> Some None
      | Some JNull \<Rightarrow> Some None
      | Some (JStr x) \<Rightarrow> Some (Some x)
      | Some other \<Rightarrow> None)"

definition field_names :: "string list" where
  "field_names = [''sender_id'', ''receiver_id'', ''message_type'', ''payload'', ''task_id'']"

definition from_dict :: "pydict \<Rightarrow> exn + AgentMessage" where
  "from_dict d =
     (case filter (\<lambda>k. k \<notin> set field_names) (map fst d) of
        k # ks \<Rightarrow>
          Inl (TypeError (''__init__() got an unexpected keyword argument '' @ repr_str k))
      | [] \<Rightarrow>
          (case (map_of d ''sender_id'', map_of d ''message_type'', map_of d ''payload'') of
             (Some s, Some t, Some p) \<Rightarrow>
               (case (s, t, p, opt_str_field (map_of d ''receiver_id''),
                      opt_str_field (map_of d ''task_id'')) of
                  (JStr sender, JStr mtype, JObj pl, Some receiver, Some tid) \<Rightarrow>
                    Inr \<lparr>sender_id = sender, receiver_id = receiver, message_type = mtype,
                         payload = pl, task_id = tid\<rparr>
                | _ \<Rightarrow> Inl (Unsupported ''field value outside its declared type''))
           | _ \<Rightarrow> Inl (TypeError ''__init__() missing required positional arguments'')))"

definition from_json :: "string \<Rightarrow> exn + AgentMessage" where
  "from_json json_str =
     (case loads json_str of
        Inl err \<Rightarrow> Inl err
      | Inr (JObj d) \<Rightarrow> from_dict d
      | Inr other \<Rightarrow> Inl (TypeError ''argument after ** must be a mapping''))"

text \<open>
  A value that stands for a Python value: the keys of every dictionary in it are
  distinct.
\<close>

primrec wf_json :: "json \<Rightarrow> bool" where
  "wf_json JNull = True"
| "wf_json (JBool b) = True"
| "wf_json (JInt i) = True"
| "wf_json (JStr s) = True"
| "wf_json (JList xs) = list_all id (map wf_json xs)"
| "wf_json (JObj kvs) =
     (distinct (map fst kvs) \<and> list_all id (map snd (map (map_prod id wf_json) kvs)))"

section \<open>Effects: the broker channel and the console\<close>

text \<open>
  What a participant does to the outside world: the messages it has published (exchange,
  routing key, body), the delivery tags it has acknowledged, and the lines it has printed.
  The broker is taken to accept every publish and acknowledgement.
\<close>

record effects =
  published :: "(string \<times> string \<times> string) list"
  acked :: "nat list"
  stdout :: "string list"

definition print :: "string \<Rightarrow> 'a effects_scheme \<Rightarrow> 'a effects_scheme" where
  "print line w = w\<lparr>stdout := stdout w @ [line]\<rparr>"

definition basic_ack :: "nat \<Rightarrow> 'a effects_scheme \<Rightarrow> 'a effects_scheme" where
  "basic_ack tag w = w\<lparr>acked := acked w @ [tag]\<rparr>"

definition send_message ::
  "AgentMessage \<Rightarrow> string \<Rightarrow> string \<Rightarrow> 'a effects_scheme \<Rightarrow> 'a effects_scheme" where
  "send_message message exchange routing_key w =
     print ('' [x] Sent '' @ [CHR 0x27] @ message_type message @ [CHR 0x27]
              @ '' to exchange '' @ [CHR 0x27] @ exchange @ [CHR 0x27]
              @ '' with routing key '' @ [CHR 0x27] @ routing_key @ [CHR 0x27])
       (w\<lparr>published := published w @ [(exchange, routing_key, to_json message)]\<rparr>)"

section \<open>The orchestrator (agents/orchestrator/orchestrator.py)\<close>

record task =
  agent_id :: string
  status :: string
  results :: "pydict option"

record tally =
  voted_agents :: "string list"
  votes :: "json list"

record agent_entry =
  entry_type :: string
  entry_status :: string

record orchestrator = effects +
  orchestrator_id :: string
  agents :: "string \<rightharpoonup> agent_entry"
  tasks :: "string \<rightharpoonup> task"
  active_votes :: "json \<rightharpoonup> (string option \<rightharpoonup> tally)"

text \<open>\<^verbatim>\<open>Orchestrator.__init__\<close>: empty registries, and the two lines it prints.\<close>

definition init_orchestrator :: "string \<Rightarrow> orchestrator" where
  "init_orchestrator oid =
     \<lparr>published = [], acked = [],
      stdout = [''Orchestrator '' @ oid @ '' listening on '' @ oid @ ''_results_queue'',
                ''Orchestrator '' @ oid @ '' listening for votes on '' @ oid @ ''_vote_queue''],
      orchestrator_id = oid, agents = Map.empty, tasks = Map.empty,
      active_votes = Map.empty\<rparr>"

definition spawn_agent :: "string \<Rightarrow> string \<Rightarrow> orchestrator \<Rightarrow> orchestrator" where
  "spawn_agent aid atype s =
     print (''Agent '' @ aid @ '' of type '' @ atype @ '' spawned and registered.'')
       (s\<lparr>agents := (agents s)(aid \<mapsto> \<lparr>entry_type = atype, entry_status = ''idle''\<rparr>)\<rparr>)"

text \<open>
  \<^verbatim>\<open>assign_task\<close>. The first argument is the string \<^verbatim>\<open>str(uuid.uuid4())\<close> drawn in
  this call: the random source is outside the program, so its value is an input. The
  envelope is built without a \<^verbatim>\<open>task_id\<close> argument; the id travels in the payload.
\<close>

definition assign_task ::
  "string \<Rightarrow> string \<Rightarrow> pydict \<Rightarrow> string \<Rightarrow> orchestrator \<Rightarrow> string \<times> orchestrator" where
  "assign_task uuid4 aid task_payload task_type s =
     (let tid = uuid4;
          message = \<lparr>sender_id = orchestrator_id s, receiver_id = Some aid,
                     message_type = ''TASK'',
                     payload = [(''task_id'', JStr tid), (''type'', JStr task_type),
                                (''details'', JObj task_payload)],
                     task_id = None\<rparr>;
          s1 = send_message message TASK_EXCHANGE aid s;
          s2 = s1\<lparr>tasks := (tasks s1)(tid \<mapsto>
                 \<lparr>agent_id = aid, status = ''assigned'', results = None\<rparr>)\<rparr>;
          s3 = print (''Task '' @ tid @ '' assigned to agent '' @ aid @ ''.'') s2
      in (tid, s3))"

text \<open>
  \<^verbatim>\<open>collect_results\<close>, the callback of the results queue, on the delivery tag and the
  decoded message.
\<close>

definition collect_results :: "nat \<Rightarrow> AgentMessage \<Rightarrow> orchestrator \<Rightarrow> orchestrator" where
  "collect_results tag message s =
     (let s1 = print ('' [x] Received result for task '' @ str_opt (task_id message)
                        @ '' from agent '' @ sender_id message) s;
          s2 = (case task_id message of
                  None \<Rightarrow> print (''Warning: Received result for unknown task ''
                                   @ str_opt (task_id message)) s1
                | Some tid \<Rightarrow>
                    (case tasks s1 tid of
                       None \<Rightarrow> print (''Warning: Received result for unknown task ''
                                        @ str_opt (task_id message)) s1
                     | Some t \<Rightarrow>
                         print (''Results for task '' @ str_opt (task_id message)
                                  @ '' collected.'')
                           (s1\<lparr>tasks := (tasks s1)(tid \<mapsto>
                                 t\<lparr>status := ''completed'',
                                   results := Some (payload message)\<rparr>)\<rparr>)))
      in basic_ack tag s2)"

text \<open>\<^verbatim>\<open>initiate_vote\<close>: a broadcast \<^verbatim>\<open>VOTE_REQUEST\<close>, with no receiver and no routing key.\<close>

definition initiate_vote ::
  "string \<Rightarrow> string \<Rightarrow> string list \<Rightarrow> orchestrator \<Rightarrow> orchestrator" where
  "initiate_vote tid vote_topic options s =
     (let message = \<lparr>sender_id = orchestrator_id s, receiver_id = None,
                     message_type = ''VOTE_REQUEST'',
                     payload = [(''task_id'', JStr tid), (''topic'', JStr vote_topic),
                                (''options'', JList (map JStr options))],
                     task_id = None\<rparr>;
          s1 = send_message message BROADCAST_EXCHANGE [] s
      in print (''Vote initiated for task '' @ tid @ '' on topic '' @ [CHR 0x27]
                  @ vote_topic @ [CHR 0x27] @ ''.'') s1)"

fun py_type_name :: "json \<Rightarrow> string" where
  "py_type_name JNull = ''NoneType''"
| "py_type_name (JBool b) = ''bool''"
| "py_type_name (JInt i) = ''int''"
| "py_type_name (JStr s) = ''str''"
| "py_type_name (JList xs) = ''list''"
| "py_type_name (JObj kvs) = ''dict''"

text \<open>
  \<^verbatim>\<open>_process_vote_message\<close>, the callback of the vote queue. The topic is whatever the
  payload holds under \<^verbatim>\<open>"vote_topic"\<close>; using it as a dictionary key raises
  \<^verbatim>\<open>TypeError\<close> when it is a list or a dictionary. The entries for the topic and the
  task are created before the sender is looked up. The task registry is not consulted.
\<close>

definition process_vote_message ::
  "nat \<Rightarrow> AgentMessage \<Rightarrow> orchestrator \<Rightarrow> exn + orchestrator" where
  "process_vote_message tag message s =
     (let vote_topic = dict_get (payload message) ''vote_topic'';
          tid = task_id message;
          vote = dict_get (payload message) ''vote'';
          s1 = print ('' [x] Received vote '' @ [CHR 0x27] @ py_str vote @ [CHR 0x27]
                        @ '' on topic '' @ [CHR 0x27] @ py_str vote_topic @ [CHR 0x27]
                        @ '' for task '' @ str_opt tid
                        @ '' from agent '' @ sender_id message) s
      in if \<not> hashable vote_topic
         then Inl (TypeError (''unhashable type: '' @ [CHR 0x27]
                                @ py_type_name vote_topic @ [CHR 0x27]))
         else
           (let key = dict_key vote_topic;
                by_task = (case active_votes s1 key of None \<Rightarrow> Map.empty | Some bt \<Rightarrow> bt);
                tal = (case by_task tid of
                        None \<Rightarrow> \<lparr>voted_agents = [], votes = []\<rparr>
                      | Some t \<Rightarrow> t);
                s2 = (if sender_id message \<notin> set (voted_agents tal)
                      then print (''Recorded vote from '' @ sender_id message
                                    @ '' for task '' @ str_opt tid @ ''.'')
                             (s1\<lparr>active_votes := (active_votes s1)(key \<mapsto> by_task(tid \<mapsto>
                                   tal\<lparr>voted_agents := voted_agents tal @ [sender_id message],
                                      votes := votes tal @ [vote]\<rparr>))\<rparr>)
                      else print (''Warning: Agent '' @ sender_id message
                                    @ '' already voted for task '' @ str_opt tid
                                    @ '' on topic '' @ py_str vote_topic @ ''.'')
                             (s1\<lparr>active_votes :=
                                   (active_votes s1)(key \<mapsto> by_task(tid \<mapsto> tal))\<rparr>))
            in Inr (basic_ack tag s2)))"

text \<open>The tally recorded for a key, if any.\<close>

definition tally_of :: "orchestrator \<Rightarrow> json \<Rightarrow> string option \<Rightarrow> tally option" where
  "tally_of s key tid = (case active_votes s key of None \<Rightarrow> None | Some bt \<Rightarrow> bt tid)"

subsection \<open>\<^verbatim>\<open>coordinate_consensus\<close>\<close>

text \<open>
  The counting loop: \<^verbatim>\<open>vote_counts[vote_str] = vote_counts.get(vote_str, 0) + 1\<close>.
  A new key goes to the end of the dictionary, an old one keeps its place.
\<close>

fun count_votes :: "json list \<Rightarrow> (string \<times> int) list \<Rightarrow> (string \<times> int) list" where
  "count_votes [] vote_counts = vote_counts"
| "count_votes (vote # rest) vote_counts =
     (let vote_str = py_str vote
      in count_votes rest
           (AList.update vote_str
              ((case map_of vote_counts vote_str of None \<Rightarrow> 0 | Some c \<Rightarrow> c) + 1)
              vote_counts))"

text \<open>The loop over \<^verbatim>\<open>vote_counts.items()\<close> that keeps the maximum and who holds it.\<close>

fun most_common :: "(string \<times> int) list \<Rightarrow> int \<Rightarrow> string list \<Rightarrow> int \<times> string list" where
  "most_common [] max_votes winning_votes = (max_votes, winning_votes)"
| "most_common ((vote, cnt) # rest) max_votes winning_votes =
     (if cnt > max_votes then most_common rest cnt [vote]
      else if cnt = max_votes then most_common rest max_votes (winning_votes @ [vote])
      else most_common rest max_votes winning_votes)"

definition no_votes_result :: "string \<Rightarrow> pydict" where
  "no_votes_result msg = [(''status'', JStr ''no_votes''), (''message'', JStr msg)]"

definition coordinate_consensus ::
  "string \<Rightarrow> string \<Rightarrow> orchestrator \<Rightarrow> pydict \<times> orchestrator" where
  "coordinate_consensus vote_topic tid s =
     (case tally_of s (JStr vote_topic) (Some tid) of
        None \<Rightarrow>
          (no_votes_result (''No votes found for topic '' @ [CHR 0x27] @ vote_topic
             @ [CHR 0x27] @ '' and task '' @ [CHR 0x27] @ tid @ [CHR 0x27] @ ''.''), s)
      | Some tal \<Rightarrow>
          (let votes_data = votes tal
           in if votes_data = []
              then (no_votes_result (''No votes recorded for topic '' @ [CHR 0x27]
                      @ vote_topic @ [CHR 0x27] @ '' and task '' @ [CHR 0x27] @ tid
                      @ [CHR 0x27] @ ''.''), s)
              else
                (let vote_counts = count_votes votes_data []
                 in if vote_counts = []
                    then (no_votes_result ''No valid votes to aggregate.'', s)
                    else
                      (let winning_votes = snd (most_common vote_counts 0 []);
                           msg = (if length winning_votes = 1
                                  then ''Consensus reached: Majority voted for ''
                                         @ [CHR 0x27] @ hd winning_votes @ [CHR 0x27] @ ''.''
                                  else ''No clear majority. Multiple top votes: ''
                                         @ str_join '', '' winning_votes @ ''.'');
                           consensus_result =
                             [(''vote_topic'', JStr vote_topic),
                              (''task_id'', JStr tid),
                              (''total_votes'', JInt (int (length votes_data))),
                              (''vote_counts'', JObj (map (\<lambda>(k, c). (k, JInt c)) vote_counts)),
                              (''consensus'',
                                 (if length winning_votes = 1 then JStr (hd winning_votes)
                                  else JList (map JStr winning_votes))),
                              (''message'', JStr msg),
                              (''status'',
                                 JStr (if length winning_votes = 1 then ''success''
                                       else ''tie''))]
                       in (consensus_result,
                           print (''Consensus for topic '' @ [CHR 0x27] @ vote_topic
                                    @ [CHR 0x27] @ '' and task '' @ [CHR 0x27] @ tid
                                    @ [CHR 0x27] @ '': '' @ msg) s)))))"

subsection \<open>Runs of the orchestrator\<close>

text \<open>
  What can happen to one orchestrator instance: a call of one of its methods, or the
  delivery of a message to one of its two callbacks. An exception ends the run.
\<close>

datatype event =
    SpawnAgent string string
  | AssignTask string string pydict string
  | ResultDelivery nat AgentMessage
  | VoteDelivery nat AgentMessage
  | InitiateVote string string "string list"
  | CoordinateConsensus string string

fun step :: "event \<Rightarrow> orchestrator \<Rightarrow> exn + orchestrator" where
  "step (SpawnAgent aid atype) s = Inr (spawn_agent aid atype s)"
| "step (AssignTask uuid4 aid task_payload task_type) s =
     Inr (snd (assign_task uuid4 aid task_payload task_type s))"
| "step (ResultDelivery tag message) s = Inr (collect_results tag message s)"
| "step (VoteDelivery tag message) s = process_vote_message tag message s"
| "step (InitiateVote tid vote_topic options) s = Inr (initiate_vote tid vote_topic options s)"
| "step (CoordinateConsensus vote_topic tid) s =
     Inr (snd (coordinate_consensus vote_topic tid s))"

fun run :: "event list \<Rightarrow> orchestrator \<Rightarrow> exn + orchestrator" where
  "run [] s = Inr s"
| "run (e # es) s = (case step e s of Inl x \<Rightarrow> Inl x | Inr s' \<Rightarrow> run es s')"

text \<open>
  The deliveries of the vote queue handled in order, as \<^verbatim>\<open>start_listening\<close> hands
  them to the callback.
\<close>

fun process_votes :: "(nat \<times> AgentMessage) list \<Rightarrow> orchestrator \<Rightarrow> exn + orchestrator" where
  "process_votes [] s = Inr s"
| "process_votes ((tag, message) # rest) s =
     (case process_vote_message tag message s of
        Inl e \<Rightarrow> Inl e
      | Inr s' \<Rightarrow> process_votes rest s')"

text \<open>The ids returned by the \<^verbatim>\<open>assign_task\<close> calls of a run, in call order.\<close>

fun assigned_ids :: "event list \<Rightarrow> string list" where
  "assigned_ids [] = []"
| "assigned_ids (AssignTask uuid4 aid task_payload task_type # es) = uuid4 # assigned_ids es"
| "assigned_ids (e # es) = assigned_ids es"

section \<open>The worker agents (agents/orchestrator/base_agent.py, llm_utils.py, quality_agent.py)\<close>

record base_agent = effects +
  self_agent_id :: string
  self_agent_type :: string
  self_orchestrator_id :: string

text \<open>\<^verbatim>\<open>BaseAgent.__init__\<close>; the orchestrator id defaults to \<^verbatim>\<open>"orchestrator_1"\<close>.\<close>

definition init_agent :: "string \<Rightarrow> string \<Rightarrow> string \<Rightarrow> base_agent" where
  "init_agent aid atype oid =
     \<lparr>published = [], acked = [],
      stdout = [''Agent '' @ aid @ '' ('' @ atype @ '') ready and listening on ''
                  @ aid @ ''_task_queue''],
      self_agent_id = aid, self_agent_type = atype, self_orchestrator_id = oid\<rparr>"

definition register_with_orchestrator :: "base_agent \<Rightarrow> base_agent" where
  "register_with_orchestrator a =
     print (''Agent '' @ self_agent_id a @ '' registered with orchestrator.'')
       (send_message
          \<lparr>sender_id = self_agent_id a, receiver_id = Some (self_orchestrator_id a),
           message_type = ''AGENT_READY'',
           payload = [(''agent_type'', JStr (self_agent_type a))], task_id = None\<rparr>
          RESULT_EXCHANGE (self_orchestrator_id a) a)"

definition send_results :: "string \<Rightarrow> pydict \<Rightarrow> base_agent \<Rightarrow> base_agent" where
  "send_results tid results_payload a =
     print (''Agent '' @ self_agent_id a @ '' sent results for task '' @ tid @ ''.'')
       (send_message
          \<lparr>sender_id = self_agent_id a, receiver_id = Some (self_orchestrator_id a),
           message_type = ''RESULT'', payload = results_payload, task_id = Some tid\<rparr>
          RESULT_EXCHANGE (self_orchestrator_id a) a)"

definition send_vote :: "string \<Rightarrow> json \<Rightarrow> string \<Rightarrow> base_agent \<Rightarrow> base_agent" where
  "send_vote tid vote vote_topic a =
     print (''Agent '' @ self_agent_id a @ '' cast vote '' @ [CHR 0x27] @ py_str vote
              @ [CHR 0x27] @ '' on topic '' @ [CHR 0x27] @ vote_topic @ [CHR 0x27]
              @ '' for task '' @ tid @ ''.'')
       (send_message
          \<lparr>sender_id = self_agent_id a, receiver_id = None,
           message_type = ''VOTE'',
           payload = [(''vote_topic'', JStr vote_topic), (''vote'', vote)],
           task_id = Some tid\<rparr>
          VOTE_EXCHANGE (''vote.'' @ vote_topic) a)"

subsection \<open>The language-model collaborator (llm_utils.py)\<close>

text \<open>
  The outside world the handlers call into: the prompt files under
  \<^verbatim>\<open>prompts/gemini\<close>, the environment variable \<^verbatim>\<open>GOOGLE_GEMINI_API_KEY\<close>, and the
  model itself (\<^verbatim>\<open>None\<close> when \<^verbatim>\<open>generate_content\<close> raises). Both functions of
  llm_utils.py answer a failure with \<^verbatim>\<open>sys.exit(1)\<close>, that is, they raise
  \<^verbatim>\<open>SystemExit\<close>. What they write to standard error is not recorded.
\<close>

record llm_world =
  templates :: "string \<rightharpoonup> string"
  api_key :: "string option"
  gemini :: "string \<Rightarrow> string option"

definition load_prompt_template :: "llm_world \<Rightarrow> string \<Rightarrow> exn + string" where
  "load_prompt_template w template_name =
     (case templates w template_name of
        None \<Rightarrow> Inl (SystemExit 1)
      | Some text \<Rightarrow> Inr text)"

definition generate_gemini_response :: "llm_world \<Rightarrow> string \<Rightarrow> exn + string" where
  "generate_gemini_response w prompt =
     (case api_key w of
        None \<Rightarrow> Inl (SystemExit 1)
      | Some k \<Rightarrow>
          if k = [] then Inl (SystemExit 1)
          else (case gemini w prompt of
                  None \<Rightarrow> Inl (SystemExit 1)
                | Some text \<Rightarrow> Inr text))"

text \<open>\<^verbatim>\<open>s.replace(old, new)\<close>: every non-overlapping occurrence, from the left.\<close>

function str_replace :: "string \<Rightarrow> string \<Rightarrow> string \<Rightarrow> string" where
  "str_replace old new [] = (if old = [] then new else [])"
| "str_replace old new (c # cs) =
     (if old = [] then new @ c # str_replace old new cs
      else if take (length old) (c # cs) = old
           then new @ str_replace old new (drop (length old) (c # cs))
           else c # str_replace old new cs)"
  by pat_completeness auto
termination
  by (relation "measure (\<lambda>(old, new, s). length s)") auto

text \<open>
  The loop of \<^verbatim>\<open>_generate_llm_response\<close> over the placeholders;
  \<^verbatim>\<open>str.replace\<close> raises \<^verbatim>\<open>TypeError\<close> when the replacement is not a string.
\<close>

fun fill_placeholders :: "string \<Rightarrow> pydict \<Rightarrow> exn + string" where
  "fill_placeholders prompt [] = Inr prompt"
| "fill_placeholders prompt ((k, v) # rest) =
     (case v of
        JStr val \<Rightarrow> fill_placeholders (str_replace (''{{'' @ k @ ''}}'') val prompt) rest
      | _ \<Rightarrow> Inl (TypeError (''replace() argument 2 must be str, not '' @ py_type_name v)))"

definition generate_llm_response :: "llm_world \<Rightarrow> string \<Rightarrow> pydict \<Rightarrow> exn + string" where
  "generate_llm_response w prompt_template_name placeholders =
     (case load_prompt_template w prompt_template_name of
        Inl e \<Rightarrow> Inl e
      | Inr prompt_template \<Rightarrow>
          (case fill_placeholders prompt_template placeholders of
             Inl e \<Rightarrow> Inl e
           | Inr prompt \<Rightarrow> generate_gemini_response w prompt))"

text \<open>
  \<^verbatim>\<open>except Exception\<close> catches every exception here but \<^verbatim>\<open>SystemExit\<close>, which
  derives from \<^verbatim>\<open>BaseException\<close> only.
\<close>

fun is_Exception :: "exn \<Rightarrow> bool" where
  "is_Exception (SystemExit c) = False"
| "is_Exception e = True"

fun exn_str :: "exn \<Rightarrow> string" where
  "exn_str (TypeError m) = m"
| "exn_str (AttributeError m) = m"
| "exn_str (KeyError k) = repr_str k"
| "exn_str (SystemExit c) = str_int c"
| "exn_str (JSONDecodeError m) = m"
| "exn_str RecursionError = ''maximum recursion depth exceeded''"
| "exn_str (Unsupported m) = m"

subsection \<open>\<^verbatim>\<open>QualityAgent.handle_task\<close>\<close>

text \<open>
  The task type and the details are what the TASK payload holds under \<^verbatim>\<open>"type"\<close> and
  \<^verbatim>\<open>"details"\<close> (\<^verbatim>\<open>None\<close> when the key is missing). \<^verbatim>\<open>details.get\<close> is called
  outside the \<^verbatim>\<open>try\<close> block and needs a dictionary.
\<close>

definition quality_handle_task ::
  "llm_world \<Rightarrow> json \<Rightarrow> json \<Rightarrow> base_agent \<Rightarrow> exn + pydict \<times> base_agent" where
  "quality_handle_task w task_type details a =
     (let a1 = print (''QualityAgent '' @ self_agent_id a @ '' handling task type: ''
                        @ py_str task_type @ '' with details: '' @ py_str details) a
      in if task_type = JStr ''review_code''
         then (case details of
                 JObj d \<Rightarrow>
                   (let code_diff = dict_get_default d ''code_diff'' (JStr [])
                    in if \<not> truthy code_diff
                       then Inr ([(''status'', JStr ''error''),
                                  (''message'',
                                   JStr ''No code diff provided for quality review.'')], a1)
                       else (case generate_llm_response w ''review_quality.txt''
                                    [(''CODE_DIFF'', code_diff)] of
                               Inr review_response \<Rightarrow>
                                 Inr ([(''status'', JStr ''success''),
                                       (''review'', JStr review_response)], a1)
                             | Inl e \<Rightarrow>
                                 if is_Exception e
                                 then Inr ([(''status'', JStr ''error''),
                                            (''message'',
                                             JStr (''Error during Gemini quality review: ''
                                                     @ exn_str e))], a1)
                                 else Inl e))
               | _ \<Rightarrow> Inl (AttributeError ([CHR 0x27] @ py_type_name details @ [CHR 0x27]
                                            @ '' object has no attribute ''
                                            @ [CHR 0x27] @ ''get'' @ [CHR 0x27])))
         else Inr ([(''status'', JStr ''error''),
                    (''message'', JStr (''Unknown task type: '' @ py_str task_type
                                          @ '' for QualityAgent.''))], a1))"

subsection \<open>\<^verbatim>\<open>BaseAgent._process_task_message\<close> and the consume loop\<close>

text \<open>
  The callback acknowledges the delivery, calls the handler of the subclass and sends
  what it returns; there is no \<^verbatim>\<open>try\<close> around either step. The result is sent under
  \<^verbatim>\<open>message.payload["task_id"]\<close>, which \<^verbatim>\<open>send_results\<close> declares a string; any
  other value there leaves the record and is answered with \<^verbatim>\<open>Unsupported\<close>.
\<close>

definition process_task_message ::
  "(json \<Rightarrow> json \<Rightarrow> base_agent \<Rightarrow> exn + pydict \<times> base_agent)
     \<Rightarrow> nat \<Rightarrow> AgentMessage \<Rightarrow> base_agent \<Rightarrow> exn + base_agent" where
  "process_task_message handle_task tag message a =
     (let a1 = print ('' [x] Agent '' @ self_agent_id a @ '' received task ''
                        @ str_opt (task_id message) @ '' of type ''
                        @ py_str (dict_get (payload message) ''type'')) a;
          a2 = basic_ack tag a1
      in case handle_task (dict_get (payload message) ''type'')
                (dict_get (payload message) ''details'') a2 of
           Inl e \<Rightarrow> Inl e
         | Inr (task_results, a3) \<Rightarrow>
             (case map_of (payload message) ''task_id'' of
                None \<Rightarrow> Inl (KeyError ''task_id'')
              | Some (JStr tid) \<Rightarrow> Inr (send_results tid task_results a3)
              | Some other \<Rightarrow>
                  Inl (Unsupported (''task_id outside its declared type str: ''
                                      @ py_type_name other))))"

text \<open>
  \<^verbatim>\<open>start_consuming_tasks\<close> on the deliveries that arrive, in queue order: an exception
  raised by the callback leaves the loop, and the deliveries behind it stay unprocessed.
\<close>

fun consume_tasks ::
  "(json \<Rightarrow> json \<Rightarrow> base_agent \<Rightarrow> exn + pydict \<times> base_agent)
     \<Rightarrow> (nat \<times> AgentMessage) list \<Rightarrow> base_agent \<Rightarrow> exn + base_agent" where
  "consume_tasks handle_task [] a = Inr a"
| "consume_tasks handle_task ((tag, message) # rest) a =
     (case process_task_message handle_task tag message a of
        Inl e \<Rightarrow> Inl e
      | Inr a' \<Rightarrow> consume_tasks handle_task rest a')"

section \<open>Sequences of calls used in the statements\<close>

text \<open>
  A sequence of \<^verbatim>\<open>assign_task\<close> calls on one instance, each with the UUID drawn in it;
  the result is the list of returned ids and the final state.
\<close>

fun assign_all ::
  "(string \<times> string \<times> pydict \<times> string) list \<Rightarrow> orchestrator \<Rightarrow> string list \<times> orchestrator" where
  "assign_all [] s = ([], s)"
| "assign_all ((uuid4, aid, task_payload, task_type) # calls) s =
     (let (tid, s1) = assign_task uuid4 aid task_payload task_type s;
          (tids, s2) = assign_all calls s1
      in (tid # tids, s2))"

text \<open>
  Whether an event hands \<^verbatim>\<open>collect_results\<close> a message with the given envelope
  task id. The message type plays no part in it: the callback does not read that field,
  and the results queue also receives the \<^verbatim>\<open>AGENT_READY\<close> messages of
  \<^verbatim>\<open>register_with_orchestrator\<close>.
\<close>

fun delivery_for :: "string \<Rightarrow> event \<Rightarrow> bool" where
  "delivery_for tid (ResultDelivery tag message) = (task_id message = Some tid)"
| "delivery_for tid e = False"

text \<open>
  Whether an event is the delivery of a message of type \<^verbatim>\<open>RESULT\<close> with the given
  envelope task id.
\<close>

fun result_for :: "string \<Rightarrow> event \<Rightarrow> bool" where
  "result_for tid (ResultDelivery tag message) =
     (message_type message = ''RESULT'' \<and> task_id message = Some tid)"
| "result_for tid e = False"

text \<open>The votes recorded for a key, the empty list when the key has no entry.\<close>

definition recorded_votes :: "orchestrator \<Rightarrow> string \<Rightarrow> string \<Rightarrow> json list" where
  "recorded_votes s vote_topic tid =
     (case tally_of s (JStr vote_topic) (Some tid) of None \<Rightarrow> [] | Some tal \<Rightarrow> votes tal)"

text \<open>
  The options that hold the maximum count among the recorded votes, each vote counted
  under its string form.
\<close>

definition top_options :: "json list \<Rightarrow> string set" where
  "top_options vs =
     {k \<in> set (map py_str vs).
        \<forall>j \<in> set (map py_str vs). count_list (map py_str vs) j \<le> count_list (map py_str vs) k}"

text \<open>
  What the vote callback leaves in the tally of the key it addresses: the old tally when
  the sender is already in it, the old tally with the sender and the vote appended
  otherwise.
\<close>

definition record_ballot :: "string \<Rightarrow> json \<Rightarrow> tally option \<Rightarrow> tally" where
  "record_ballot sender vote old =
     (let tal = (case old of None \<Rightarrow> \<lparr>voted_agents = [], votes = []\<rparr> | Some t \<Rightarrow> t)
      in if sender \<in> set (voted_agents tal) then tal
         else tal\<lparr>voted_agents := voted_agents tal @ [sender], votes := votes tal @ [vote]\<rparr>)"

definition tally_votes :: "tally option \<Rightarrow> json list" where
  "tally_votes old = (case old of None \<Rightarrow> [] | Some t \<Rightarrow> votes t)"

definition tally_agents :: "tally option \<Rightarrow> string list" where
  "tally_agents old = (case old of None \<Rightarrow> [] | Some t \<Rightarrow> voted_agents t)"

text \<open>Reading a consensus result: the counts as a map, and the set of consensus values.\<close>

definition vote_counts_map :: "pydict \<Rightarrow> (string \<rightharpoonup> json)" where
  "vote_counts_map r = (case map_of r ''vote_counts'' of Some (JObj vc) \<Rightarrow> map_of vc | _ \<Rightarrow> Map.empty)"

definition consensus_values :: "pydict \<Rightarrow> json set" where
  "consensus_values r =
     (case map_of r ''consensus'' of None \<Rightarrow> {} | Some (JList ws) \<Rightarrow> set ws | Some v \<Rightarrow> {v})"

text \<open>Invariants of the two registries.\<close>

definition tally_ok :: "tally \<Rightarrow> bool" where
  "tally_ok tal = (distinct (voted_agents tal) \<and> length (votes tal) = length (voted_agents tal))"

definition statuses_ok :: "orchestrator \<Rightarrow> bool" where
  "statuses_ok s = (\<forall>tid t. tasks s tid = Some t \<longrightarrow> status t = ''assigned'' \<or> status t = ''completed'')"

text \<open>A message whose task id is not in the registry.\<close>

definition unknown_task :: "orchestrator \<Rightarrow> AgentMessage \<Rightarrow> bool" where
  "unknown_task s message =
     (case task_id message of None \<Rightarrow> True | Some tid \<Rightarrow> tasks s tid = None)"

text \<open>
  For the proofs about JSON text: what may follow a value inside a text
  (\<open>at_delim\<close>), what a value may start with, the text of one member of an object,
  and a recursion depth that suffices to scan the text of a value.
\<close>

definition at_delim :: "string \<Rightarrow> bool" where
  "at_delim rest = (case rest of [] \<Rightarrow> True | c # cs \<Rightarrow> c = CHR '','' \<or> c = CHR '']'' \<or> c = CHR ''}'')"

definition value_start :: "char \<Rightarrow> bool" where
  "value_start c = (\<not> is_ws c \<and> c \<noteq> CHR '']'' \<and> c \<noteq> CHR ''}'' \<and> c \<noteq> CHR '','')"

definition dumps_item :: "string \<times> json \<Rightarrow> string" where
  "dumps_item kv = dumps_str (fst kv) @ '': '' @ dumps (snd kv)"

primrec fuel_of :: "json \<Rightarrow> nat" where
  "fuel_of JNull = 1"
| "fuel_of (JBool b) = 1"
| "fuel_of (JInt i) = 1"
| "fuel_of (JStr s) = 1"
| "fuel_of (JList xs) = 1 + sum_list (map Suc (map fuel_of xs))"
| "fuel_of (JObj kvs) = 1 + sum_list (map Suc (map snd (map (map_prod id fuel_of) kvs)))"

section \<open>Scenarios\<close>

text \<open>Concrete states, messages and worlds, for the instances the theorems are used at.\<close>

definition orch0 :: orchestrator where
  "orch0 = init_orchestrator ''orchestrator_1''"

definition ghost_vote :: AgentMessage where
  "ghost_vote = \<lparr>sender_id = ''sec1'', receiver_id = None, message_type = ''VOTE'',
                  payload = [(''vote_topic'', JStr ''t''), (''vote'', JStr ''Approve'')],
                  task_id = Some ''ghost''\<rparr>"

definition quality0 :: base_agent where
  "quality0 = init_agent ''quality_agent_1'' ''quality'' ''orchestrator_1''"

definition review_task :: "string \<Rightarrow> AgentMessage" where
  "review_task tid =
     \<lparr>sender_id = ''orchestrator_1'', receiver_id = Some ''quality_agent_1'',
      message_type = ''TASK'',
      payload = [(''task_id'', JStr tid), (''type'', JStr ''review_code''),
                 (''details'', JObj [(''code_diff'', JStr ''x'')])],
      task_id = None\<rparr>"

definition no_details_task :: AgentMessage where
  "no_details_task =
     \<lparr>sender_id = ''orchestrator_1'', receiver_id = Some ''quality_agent_1'',
      message_type = ''TASK'',
      payload = [(''task_id'', JStr ''t3''), (''type'', JStr ''review_code'')],
      task_id = None\<rparr>"

definition world_no_key :: llm_world where
  "world_no_key = \<lparr>templates = [''review_quality.txt'' \<mapsto> ''Review: {{CODE_DIFF}}''],
                    api_key = None, gemini = (\<lambda>prompt. Some ''looks fine'')\<rparr>"

definition world_ok :: llm_world where
  "world_ok = \<lparr>templates = [''review_quality.txt'' \<mapsto> ''Review: {{CODE_DIFF}}''],
                api_key = Some ''k'', gemini = (\<lambda>prompt. Some ''looks fine'')\<rparr>"

definition task_d1 :: AgentMessage where
  "task_d1 = \<lparr>sender_id = ''orchestrator_1'', receiver_id = Some ''agent_a'',
               message_type = ''TASK'',
               payload = [(''task_id'', JStr ''d1''), (''type'', JStr ''review_code''),
                          (''details'', JObj [(''code_diff'', JStr ''x'')])],
               task_id = None\<rparr>"

definition calls0 :: "(string \<times> string \<times> pydict \<times> string) list" where
  "calls0 = [(''d1'', ''agent_a'', [(''code_diff'', JStr ''x'')], ''review_code''),
             (''d2'', ''agent_b'', [], ''review'')]"

definition scenario_d :: orchestrator where
  "scenario_d = snd (assign_task ''d1'' ''agent_a'' [(''code_diff'', JStr ''x'')] ''review_code'' orch0)"

definition result_msg :: "string \<Rightarrow> string \<Rightarrow> AgentMessage" where
  "result_msg tid st =
     \<lparr>sender_id = ''agent_a'', receiver_id = Some ''orchestrator_1'',
      message_type = ''RESULT'', payload = [(''status'', JStr st)], task_id = Some tid\<rparr>"

definition vote_msg :: "string \<Rightarrow> string \<Rightarrow> AgentMessage" where
  "vote_msg sender v =
     \<lparr>sender_id = sender, receiver_id = None, message_type = ''VOTE'',
      payload = [(''vote_topic'', JStr ''approve_code_fix''), (''vote'', JStr v)],
      task_id = Some ''t1''\<rparr>"

definition votes_a :: "(nat \<times> AgentMessage) list" where
  "votes_a = [(1, vote_msg ''sec1'' ''Approve''), (2, vote_msg ''perf1'' ''Approve''),
              (3, vote_msg ''qual1'' ''Reject'')]"

definition votes_a_reordered :: "(nat \<times> AgentMessage) list" where
  "votes_a_reordered = [(1, vote_msg ''qual1'' ''Reject''), (2, vote_msg ''sec1'' ''Approve''),
              (3, vote_msg ''perf1'' ''Approve'')]"

definition votes_b :: "(nat \<times> AgentMessage) list" where
  "votes_b = [(1, vote_msg ''sec1'' ''Approve''), (2, vote_msg ''perf1'' ''Reject'')]"

definition scenario_a :: orchestrator where
  "scenario_a = projr (process_votes votes_a orch0)"

definition scenario_b :: orchestrator where
  "scenario_b = projr (process_votes votes_b orch0)"

definition events_d :: "event list" where
  "events_d = [SpawnAgent ''agent_b'' ''quality'', VoteDelivery 1 ghost_vote,
               ResultDelivery 2 (result_msg ''zz'' ''success'')]"

definition events_err :: "event list" where
  "events_err = [AssignTask ''d1'' ''agent_a'' [(''code_diff'', JStr ''x'')] ''review_code'',
                 ResultDelivery 1 (result_msg ''d1'' ''error'')]"

definition ready_d1 :: AgentMessage where
  "ready_d1 =
     \<lparr>sender_id = ''agent_a'', receiver_id = Some ''orchestrator_1'',
      message_type = ''AGENT_READY'', payload = [(''agent_type'', JStr ''quality'')],
      task_id = Some ''d1''\<rparr>"

definition events_redraw :: "event list" where
  "events_redraw = [VoteDelivery 1 ghost_vote, AssignTask ''d1'' ''agent_b'' [] ''review'']"

definition calls_dup :: "(string \<times> string \<times> pydict \<times> string) list" where
  "calls_dup =
     [(''3f2b8c1e-5d4a-4f6b-9c7d-1a2b3c4d5e6f'', ''agent_a'', [(''code_diff'', JStr ''x'')],
       ''review_code''),
      (''3f2b8c1e-5d4a-4f6b-9c7d-1a2b3c4d5e6f'', ''agent_b'', [], ''review'')]"

definition scenario_c :: orchestrator where
  "scenario_c = projr (process_vote_message 1 (vote_msg ''sec1'' ''Approve'') orch0)"

definition events_c :: "event list" where
  "events_c = [VoteDelivery 1 (vote_msg ''sec1'' ''Approve''),
               VoteDelivery 2 (vote_msg ''sec1'' ''Approve'')]"

section \<open>Lemmas: effects and registries\<close>

lemma tasks_print [simp]: "tasks (print l s) = tasks s"
  by (simp add: print_def)

lemma tasks_basic_ack [simp]: "tasks (basic_ack g s) = tasks s"
  by (simp add: basic_ack_def)

lemma tasks_send_message [simp]: "tasks (send_message m e r s) = tasks s"
  by (simp add: send_message_def print_def)

lemma active_votes_print [simp]: "active_votes (print l s) = active_votes s"
  by (simp add: print_def)

lemma active_votes_basic_ack [simp]: "active_votes (basic_ack g s) = active_votes s"
  by (simp add: basic_ack_def)

lemma active_votes_send_message [simp]: "active_votes (send_message m e r s) = active_votes s"
  by (simp add: send_message_def print_def)

lemma published_print [simp]: "published (print l s) = published s"
  by (simp add: print_def)

lemma published_basic_ack [simp]: "published (basic_ack g s) = published s"
  by (simp add: basic_ack_def)

lemma published_send_message [simp]:
  "published (send_message m e r s) = published s @ [(e, r, to_json m)]"
  by (simp add: send_message_def print_def)

lemma assign_task_fst [simp]: "fst (assign_task u a p t s) = u"
  by (simp add: assign_task_def Let_def)

lemma assign_task_tasks [simp]:
  "tasks (snd (assign_task u a p t s)) =
     (tasks s)(u \<mapsto> \<lparr>agent_id = a, status = ''assigned'', results = None\<rparr>)"
  by (simp add: assign_task_def Let_def)

lemma assign_all_fst: "fst (assign_all calls s) = map fst calls"
  by (induction calls arbitrary: s) (auto simp: split_def Let_def)

lemma assign_all_tasks:
  "distinct (map fst calls) \<Longrightarrow> (u, a, p, t) \<in> set calls \<Longrightarrow>
   tasks (snd (assign_all calls s)) u
     = Some \<lparr>agent_id = a, status = ''assigned'', results = None\<rparr>"
proof (induction calls arbitrary: s)
  case Nil
  then show ?case by simp
next
  case (Cons c calls)
  obtain u' a' p' t' where c: "c = (u', a', p', t')" by (cases c) auto
  show ?case
  proof (cases "(u, a, p, t) \<in> set calls")
    case True
    with Cons show ?thesis by (simp add: c split_def Let_def)
  next
    case False
    with Cons.prems have eq: "u' = u" "a' = a" and notin: "u \<notin> fst ` set calls"
      by (auto simp: c)
    have keep: "\<And>s. tasks (snd (assign_all calls s)) u = tasks s u"
      using notin
    proof (induction calls)
      case Nil
      then show ?case by simp
    next
      case (Cons d ds)
      obtain u2 a2 p2 t2 where d: "d = (u2, a2, p2, t2)" by (cases d) auto
      from Cons show ?case by (auto simp: d split_def Let_def)
    qed
    show ?thesis by (simp add: c split_def Let_def keep eq)
  qed
qed

lemma assign_all_tasks_last:
  "tasks (snd (assign_all calls s)) u =
     (case map_of (rev calls) u of
        None \<Rightarrow> tasks s u
      | Some (a, p, t) \<Rightarrow> Some \<lparr>agent_id = a, status = ''assigned'', results = None\<rparr>)"
proof (induction calls arbitrary: s)
  case Nil
  then show ?case by simp
next
  case (Cons c calls)
  obtain u' a' p' t' where c: "c = (u', a', p', t')" by (cases c) auto
  show ?case
    by (simp add: c split_def Let_def Cons.IH map_add_def split: option.splits)
qed

lemma published_send_message_agent [simp]:
  "published (send_message m e r (a :: base_agent)) = published a @ [(e, r, to_json m)]"
  by (simp add: send_message_def print_def)

lemma stdout_print [simp]: "stdout (print l s) = stdout s @ [l]"
  by (simp add: print_def)

lemma stdout_basic_ack [simp]: "stdout (basic_ack g s) = stdout s"
  by (simp add: basic_ack_def)

lemma collect_results_tasks:
  "tasks (collect_results tag m s) =
     (case task_id m of
        None \<Rightarrow> tasks s
      | Some tid \<Rightarrow>
          (case tasks s tid of
             None \<Rightarrow> tasks s
           | Some t \<Rightarrow> (tasks s)(tid \<mapsto> t\<lparr>status := ''completed'', results := Some (payload m)\<rparr>)))"
  by (simp add: collect_results_def Let_def split: option.splits)

lemma collect_results_active_votes [simp]:
  "active_votes (collect_results tag m s) = active_votes s"
  by (simp add: collect_results_def Let_def split: option.splits)

lemma process_vote_tasks:
  "process_vote_message tag m s = Inr s' \<Longrightarrow> tasks s' = tasks s"
  by (auto simp: process_vote_message_def Let_def split: if_splits)

lemma spawn_agent_tasks [simp]: "tasks (spawn_agent a t s) = tasks s"
  by (simp add: spawn_agent_def)

lemma initiate_vote_tasks [simp]: "tasks (initiate_vote tid tp os s) = tasks s"
  by (simp add: initiate_vote_def Let_def)

lemma coordinate_consensus_tasks [simp]:
  "tasks (snd (coordinate_consensus tp tid s)) = tasks s"
  by (simp add: coordinate_consensus_def Let_def split: option.splits)

lemma step_keeps_task:
  assumes "step e s = Inr s'" "\<not> delivery_for tid e" "tid \<notin> set (assigned_ids [e])"
  shows "tasks s' tid = tasks s tid"
proof (cases e)
  case (ResultDelivery tag m)
  with assms show ?thesis
    by (auto simp: collect_results_tasks split: option.splits)
next
  case (VoteDelivery tag m)
  with assms show ?thesis by (auto dest: process_vote_tasks)
qed (use assms in auto)

lemma assigned_ids_Cons: "set (assigned_ids (e # es)) = set (assigned_ids [e]) \<union> set (assigned_ids es)"
  by (cases e) auto

lemma run_keeps_task:
  "run evs s = Inr s' \<Longrightarrow> \<forall>e \<in> set evs. \<not> delivery_for tid e \<Longrightarrow>
   tid \<notin> set (assigned_ids evs) \<Longrightarrow> tasks s' tid = tasks s tid"
proof (induction evs arbitrary: s)
  case Nil
  then show ?case by simp
next
  case (Cons e es)
  from Cons.prems(1) obtain s1 where s1: "step e s = Inr s1" and r: "run es s1 = Inr s'"
    by (auto split: sum.splits)
  from Cons.prems(3) have n1: "tid \<notin> set (assigned_ids [e])" and n2: "tid \<notin> set (assigned_ids es)"
    using assigned_ids_Cons [of e es] by auto
  have "tasks s1 tid = tasks s tid"
    using step_keeps_task [OF s1 _ n1] Cons.prems(2) by simp
  moreover have "tasks s' tid = tasks s1 tid"
    using Cons.IH [OF r _ n2] Cons.prems(2) by simp
  ultimately show ?case by simp
qed

lemma step_keeps_assigned:
  assumes "step e s = Inr s'" "\<not> delivery_for tid e"
    and "tasks s tid = Some t" "status t = ''assigned''"
  shows "\<exists>t'. tasks s' tid = Some t' \<and> status t' = ''assigned''"
proof (cases e)
  case (ResultDelivery tag m)
  with assms show ?thesis
    by (auto simp: collect_results_tasks split: option.splits)
next
  case (VoteDelivery tag m)
  with assms show ?thesis by (auto dest: process_vote_tasks)
qed (use assms in auto)

lemma run_keeps_assigned:
  "run evs s = Inr s' \<Longrightarrow> \<forall>e \<in> set evs. \<not> delivery_for tid e \<Longrightarrow>
   tasks s tid = Some t \<Longrightarrow> status t = ''assigned'' \<Longrightarrow>
   \<exists>t'. tasks s' tid = Some t' \<and> status t' = ''assigned''"
proof (induction evs arbitrary: s t)
  case Nil
  then show ?case by simp
next
  case (Cons e es)
  from Cons.prems(1) obtain s1 where s1: "step e s = Inr s1" and r: "run es s1 = Inr s'"
    by (auto split: sum.splits)
  from Cons.prems(2) have n1: "\<not> delivery_for tid e"
    and n2: "\<forall>e \<in> set es. \<not> delivery_for tid e" by simp_all
  from step_keeps_assigned [OF s1 n1 Cons.prems(3) Cons.prems(4)]
  obtain t1 where t1: "tasks s1 tid = Some t1" "status t1 = ''assigned''" by blast
  from Cons.IH [OF r n2 t1] show ?case .
qed

lemma collect_results_status:
  assumes "tasks (collect_results tag m s) tid = Some t'"
  shows "status t' = ''completed'' \<or> tasks s tid = Some t'"
  using assms by (auto simp: collect_results_tasks split: option.splits if_splits)

lemma step_statuses_ok:
  assumes "step e s = Inr s'" "statuses_ok s"
  shows "statuses_ok s'"
  unfolding statuses_ok_def
proof (intro allI impI)
  fix tid t
  assume t: "tasks s' tid = Some t"
  have ok: "\<And>u. tasks s tid = Some u \<Longrightarrow> status u = ''assigned'' \<or> status u = ''completed''"
    using assms(2) by (auto simp: statuses_ok_def)
  show "status t = ''assigned'' \<or> status t = ''completed''"
  proof (cases e)
    case (ResultDelivery tag m)
    with assms(1) t have "tasks (collect_results tag m s) tid = Some t" by auto
    from collect_results_status [OF this] ok show ?thesis by auto
  next
    case (VoteDelivery tag m)
    with assms(1) t ok show ?thesis by (auto dest: process_vote_tasks)
  next
    case (AssignTask u a p ty)
    with assms(1) t ok show ?thesis by (auto split: if_splits)
  next
    case (SpawnAgent a ty)
    with assms(1) t ok show ?thesis by auto
  next
    case (InitiateVote a b c)
    with assms(1) t ok show ?thesis by auto
  next
    case (CoordinateConsensus a b)
    with assms(1) t ok show ?thesis by auto
  qed
qed

lemma run_statuses_ok:
  "run evs s = Inr s' \<Longrightarrow> statuses_ok s \<Longrightarrow> statuses_ok s'"
proof (induction evs arbitrary: s)
  case Nil
  then show ?case by simp
next
  case (Cons e es)
  then show ?case by (auto split: sum.splits dest: step_statuses_ok)
qed

lemma init_statuses_ok: "statuses_ok (init_orchestrator oid)"
  by (simp add: statuses_ok_def init_orchestrator_def)

section \<open>Lemmas: counting votes and finding the winners\<close>

lemma count_votes_distinct:
  "distinct (map fst vc) \<Longrightarrow> distinct (map fst (count_votes vs vc))"
  by (induction vs arbitrary: vc) (auto simp: Let_def distinct_update)

lemma count_votes_map_of:
  "map_of (count_votes vs vc) k =
     (if k \<in> set (map py_str vs)
      then Some ((case map_of vc k of None \<Rightarrow> 0 | Some c \<Rightarrow> c) + int (count_list (map py_str vs) k))
      else map_of vc k)"
proof (induction vs arbitrary: vc)
  case Nil
  then show ?case by simp
next
  case (Cons v vs)
  show ?case
    by (simp add: Let_def Cons.IH update_conv' split: option.splits)
qed

lemma count_votes_empty:
  "map_of (count_votes vs []) k =
     (if k \<in> set (map py_str vs) then Some (int (count_list (map py_str vs) k)) else None)"
  by (simp add: count_votes_map_of)

lemma count_votes_nonempty: "vs \<noteq> [] \<Longrightarrow> count_votes vs [] \<noteq> []"
proof
  assume ne: "vs \<noteq> []" and e: "count_votes vs [] = []"
  then obtain v where "v \<in> set vs" by (cases vs) auto
  then have "map_of (count_votes vs []) (py_str v) \<noteq> None"
    by (simp add: count_votes_empty)
  with e show False by simp
qed

lemma most_common_fst_ge: "max_votes \<le> fst (most_common items max_votes w)"
  by (induction items max_votes w rule: most_common.induct) (auto split: if_splits)

lemma most_common_fst_ub:
  "(k, c) \<in> set items \<Longrightarrow> c \<le> fst (most_common items max_votes w)"
proof (induction items max_votes w rule: most_common.induct)
  case (1 max_votes w)
  then show ?case by simp
next
  case (2 vote cnt rest max_votes w)
  then show ?case
    using most_common_fst_ge [of cnt rest "[vote]"]
          most_common_fst_ge [of max_votes rest "w @ [vote]"]
          most_common_fst_ge [of max_votes rest w]
    by (auto split: if_splits)
qed

lemma most_common_snd:
  "snd (most_common items max_votes w) =
     (if fst (most_common items max_votes w) = max_votes then w else [])
     @ map fst (filter (\<lambda>(k, c). c = fst (most_common items max_votes w)) items)"
proof (induction items max_votes w rule: most_common.induct)
  case (1 max_votes w)
  then show ?case by simp
next
  case (2 vote cnt rest max_votes w)
  show ?case
  proof (cases "cnt > max_votes")
    case True
    with 2 most_common_fst_ge [of cnt rest "[vote]"] show ?thesis by auto
  next
    case False
    note nb = this
    show ?thesis
    proof (cases "cnt = max_votes")
      case True
      with 2 nb show ?thesis by auto
    next
      case False
      with 2 nb most_common_fst_ge [of max_votes rest w] show ?thesis by auto
    qed
  qed
qed

lemma most_common_fst_attained:
  "fst (most_common items max_votes w) = max_votes
   \<or> (\<exists>k. (k, fst (most_common items max_votes w)) \<in> set items)"
  by (induction items max_votes w rule: most_common.induct) (auto split: if_splits)

lemma count_votes_items:
  "(k, c) \<in> set (count_votes vs []) \<longleftrightarrow>
     k \<in> set (map py_str vs) \<and> c = int (count_list (map py_str vs) k)"
proof -
  have d: "distinct (map fst (count_votes vs []))"
    by (rule count_votes_distinct) simp
  have "(k, c) \<in> set (count_votes vs []) \<longleftrightarrow> map_of (count_votes vs []) k = Some c"
    using d by simp
  then show ?thesis by (auto simp: count_votes_empty)
qed

lemma winning_votes_top:
  assumes "vs \<noteq> []"
  shows "set (snd (most_common (count_votes vs []) 0 [])) = top_options vs"
    and "distinct (snd (most_common (count_votes vs []) 0 []))"
proof -
  let ?items = "count_votes vs []"
  let ?strs = "map py_str vs"
  let ?mx = "fst (most_common ?items 0 [])"
  from assms obtain v where v: "v \<in> set vs" by (cases vs) auto
  then have "(py_str v, int (count_list ?strs (py_str v))) \<in> set ?items"
    by (simp add: count_votes_items)
  then have "int (count_list ?strs (py_str v)) \<le> ?mx" by (rule most_common_fst_ub)
  moreover have "count_list ?strs (py_str v) > 0" using v count_list_0_iff [of "map py_str vs" "py_str v"] by auto
  ultimately have pos: "?mx > 0" by linarith
  have ws: "snd (most_common ?items 0 []) = map fst (filter (\<lambda>(k, c). c = ?mx) ?items)"
    using most_common_snd [of ?items 0 "[]"] pos by simp
  from most_common_fst_attained [of ?items 0 "[]"] pos
  obtain k0 where k0: "(k0, ?mx) \<in> set ?items" by auto
  have ub: "\<And>j. j \<in> set ?strs \<Longrightarrow> int (count_list ?strs j) \<le> ?mx"
    using most_common_fst_ub [of _ _ ?items 0 "[]"] by (simp add: count_votes_items)
  have "set (snd (most_common ?items 0 [])) = {k. (k, ?mx) \<in> set ?items}"
    unfolding ws by force
  also have "\<dots> = top_options vs"
  proof (intro set_eqI iffI)
    fix k assume "k \<in> {k. (k, ?mx) \<in> set ?items}"
    then have "k \<in> set ?strs" and "?mx = int (count_list ?strs k)"
      by (simp_all add: count_votes_items)
    with ub show "k \<in> top_options vs"
      unfolding top_options_def by (auto simp del: set_map)
  next
    fix k assume "k \<in> top_options vs"
    then have k: "k \<in> set ?strs"
      and top: "\<And>j. j \<in> set ?strs \<Longrightarrow> count_list ?strs j \<le> count_list ?strs k"
      unfolding top_options_def by (auto simp del: set_map)
    from k0 have "k0 \<in> set ?strs" and "?mx = int (count_list ?strs k0)"
      by (simp_all add: count_votes_items)
    with top [of k0] ub [OF k] have "?mx = int (count_list ?strs k)" by linarith
    with k show "k \<in> {k. (k, ?mx) \<in> set ?items}" by (simp add: count_votes_items)
  qed
  finally show "set (snd (most_common ?items 0 [])) = top_options vs" .
  have "distinct (map fst ?items)" by (rule count_votes_distinct) simp
  then show "distinct (snd (most_common ?items 0 []))"
    unfolding ws by (rule distinct_map_filter)
qed

lemma top_options_nonempty: "vs \<noteq> [] \<Longrightarrow> top_options vs \<noteq> {}"
proof -
  assume ne: "vs \<noteq> []"
  from winning_votes_top(1) [OF ne] most_common_snd [of "count_votes vs []" 0 "[]"]
    most_common_fst_attained [of "count_votes vs []" 0 "[]"]
  show ?thesis
  proof -
    let ?items = "count_votes vs []"
    let ?mx = "fst (most_common ?items 0 [])"
    from ne obtain v where v: "v \<in> set vs" by (cases vs) auto
    then have "(py_str v, int (count_list (map py_str vs) (py_str v))) \<in> set ?items"
      by (simp add: count_votes_items)
    then have "int (count_list (map py_str vs) (py_str v)) \<le> ?mx" by (rule most_common_fst_ub)
    moreover have "count_list (map py_str vs) (py_str v) > 0" using v count_list_0_iff [of "map py_str vs" "py_str v"] by auto
    ultimately have pos: "?mx > 0" by linarith
    with most_common_fst_attained [of ?items 0 "[]"]
    obtain k0 where k0: "(k0, ?mx) \<in> set ?items" by auto
    then have "k0 \<in> set (snd (most_common ?items 0 []))"
      using most_common_snd [of ?items 0 "[]"] pos by force
    with winning_votes_top(1) [OF ne] show ?thesis by auto
  qed
qed

lemma consensus_no_votes:
  "recorded_votes s tp tid = [] \<Longrightarrow>
   map_of (fst (coordinate_consensus tp tid s)) ''status'' = Some (JStr ''no_votes'')"
  by (auto simp: recorded_votes_def coordinate_consensus_def no_votes_result_def Let_def
           split: option.splits)

lemma consensus_fields:
  assumes "recorded_votes s tp tid = vs" "vs \<noteq> []"
  shows "map_of (fst (coordinate_consensus tp tid s)) ''total_votes'' = Some (JInt (int (length vs)))"
    and "map_of (fst (coordinate_consensus tp tid s)) ''vote_counts''
           = Some (JObj (map (\<lambda>(k, c). (k, JInt c)) (count_votes vs [])))"
    and "map_of (fst (coordinate_consensus tp tid s)) ''status''
           = Some (JStr (if length (snd (most_common (count_votes vs []) 0 [])) = 1
                         then ''success'' else ''tie''))"
    and "map_of (fst (coordinate_consensus tp tid s)) ''consensus''
           = Some (if length (snd (most_common (count_votes vs []) 0 [])) = 1
                   then JStr (hd (snd (most_common (count_votes vs []) 0 [])))
                   else JList (map JStr (snd (most_common (count_votes vs []) 0 []))))"
proof -
  from assms obtain tal where t: "tally_of s (JStr tp) (Some tid) = Some tal" "votes tal = vs"
    by (auto simp: recorded_votes_def split: option.splits)
  have ne: "count_votes vs [] \<noteq> []" using assms(2) by (rule count_votes_nonempty)
  show "map_of (fst (coordinate_consensus tp tid s)) ''total_votes'' = Some (JInt (int (length vs)))"
    using t assms(2) ne by (simp add: coordinate_consensus_def Let_def)
  show "map_of (fst (coordinate_consensus tp tid s)) ''vote_counts''
           = Some (JObj (map (\<lambda>(k, c). (k, JInt c)) (count_votes vs [])))"
    using t assms(2) ne by (simp add: coordinate_consensus_def Let_def)
  show "map_of (fst (coordinate_consensus tp tid s)) ''status''
           = Some (JStr (if length (snd (most_common (count_votes vs []) 0 [])) = 1
                         then ''success'' else ''tie''))"
    using t assms(2) ne by (simp add: coordinate_consensus_def Let_def)
  show "map_of (fst (coordinate_consensus tp tid s)) ''consensus''
           = Some (if length (snd (most_common (count_votes vs []) 0 [])) = 1
                   then JStr (hd (snd (most_common (count_votes vs []) 0 [])))
                   else JList (map JStr (snd (most_common (count_votes vs []) 0 []))))"
    using t assms(2) ne by (simp add: coordinate_consensus_def Let_def)
qed

lemma map_of_counts_json:
  "map_of (map (\<lambda>(k, c). (k, JInt c)) vc) k = map_option JInt (map_of vc k)"
  by (induction vc) auto

lemma winners_length_card:
  assumes "vs \<noteq> []"
  shows "length (snd (most_common (count_votes vs []) 0 [])) = card (top_options vs)"
  using winning_votes_top [OF assms] distinct_card by metis

section \<open>Lemmas: the vote callback\<close>

lemma process_vote_effect:
  assumes "hashable (dict_get (payload m) ''vote_topic'')"
  shows "\<exists>s'. process_vote_message tag m s = Inr s'
           \<and> tasks s' = tasks s
           \<and> (\<forall>key tid. tally_of s' key tid =
                (if key = dict_key (dict_get (payload m) ''vote_topic'') \<and> tid = task_id m
                 then Some (record_ballot (sender_id m) (dict_get (payload m) ''vote'')
                              (tally_of s key tid))
                 else tally_of s key tid))"
  using assms
  by (auto simp: process_vote_message_def Let_def tally_of_def record_ballot_def
           split: option.splits)

lemma hashable_keys_only:
  "process_vote_message tag m s = Inr s' \<Longrightarrow> hashable (dict_get (payload m) ''vote_topic'')"
  by (auto simp: process_vote_message_def Let_def split: if_splits)

lemma duplicate_vote_unchanged:
  assumes "hashable (dict_get (payload m) ''vote_topic'')"
    and "tally_of s (dict_key (dict_get (payload m) ''vote_topic'')) (task_id m) = Some tal"
    and "sender_id m \<in> set (voted_agents tal)"
  shows "\<exists>s'. process_vote_message tag m s = Inr s'
           \<and> active_votes s' = active_votes s \<and> tasks s' = tasks s"
proof -
  let ?key = "dict_key (dict_get (payload m) ''vote_topic'')"
  from assms(2) obtain bt where bt: "active_votes s ?key = Some bt" "bt (task_id m) = Some tal"
    by (auto simp: tally_of_def split: option.splits)
  have "bt(task_id m \<mapsto> tal) = bt" using bt(2) by (rule map_upd_triv)
  moreover have "(active_votes s)(?key \<mapsto> bt) = active_votes s" using bt(1) by (rule map_upd_triv)
  ultimately show ?thesis
    using assms(1,3) bt
    by (simp add: process_vote_message_def Let_def)
qed

lemma record_ballot_ok:
  "(case old of None \<Rightarrow> True | Some t \<Rightarrow> tally_ok t) \<Longrightarrow> tally_ok (record_ballot a v old)"
  by (auto simp: record_ballot_def tally_ok_def Let_def split: option.splits)

lemma tally_of_print [simp]: "tally_of (print l s) = tally_of s"
  by (intro ext) (simp add: tally_of_def)

lemma tally_of_basic_ack [simp]: "tally_of (basic_ack g s) = tally_of s"
  by (intro ext) (simp add: tally_of_def)

lemma tally_of_collect_results [simp]: "tally_of (collect_results g m s) = tally_of s"
  by (intro ext) (simp add: tally_of_def)

lemma tally_of_spawn_agent [simp]: "tally_of (spawn_agent a t s) = tally_of s"
  by (intro ext) (simp add: tally_of_def spawn_agent_def)

lemma tally_of_initiate_vote [simp]: "tally_of (initiate_vote a t os s) = tally_of s"
  by (intro ext) (simp add: tally_of_def initiate_vote_def Let_def)

lemma tally_of_assign_task [simp]: "tally_of (snd (assign_task u a p t s)) = tally_of s"
  by (intro ext) (simp add: tally_of_def assign_task_def Let_def)

lemma tally_of_coordinate_consensus [simp]:
  "tally_of (snd (coordinate_consensus tp tid s)) = tally_of s"
  by (intro ext) (simp add: tally_of_def coordinate_consensus_def Let_def split: option.splits)

lemma step_tallies_ok:
  assumes "step e s = Inr s'"
    and "\<And>key tid tal. tally_of s key tid = Some tal \<Longrightarrow> tally_ok tal"
    and "tally_of s' key tid = Some tal"
  shows "tally_ok tal"
proof (cases e)
  case (VoteDelivery tag m)
  with assms(1) have pv: "process_vote_message tag m s = Inr s'" by simp
  from process_vote_effect [OF hashable_keys_only [OF pv], of tag s] pv
  have eff: "tally_of s' key tid =
                (if key = dict_key (dict_get (payload m) ''vote_topic'') \<and> tid = task_id m
                 then Some (record_ballot (sender_id m) (dict_get (payload m) ''vote'')
                              (tally_of s key tid))
                 else tally_of s key tid)" by auto
  show ?thesis
  proof (cases "key = dict_key (dict_get (payload m) ''vote_topic'') \<and> tid = task_id m")
    case True
    with eff assms(3) have "tal = record_ballot (sender_id m) (dict_get (payload m) ''vote'')
                              (tally_of s key tid)" by simp
    moreover have "case tally_of s key tid of None \<Rightarrow> True | Some t \<Rightarrow> tally_ok t"
      using assms(2) by (auto split: option.splits)
    ultimately show ?thesis using record_ballot_ok by simp
  next
    case False
    with eff assms(3) have "tally_of s key tid = Some tal" by simp
    then show ?thesis by (rule assms(2))
  qed
qed (use assms in auto)

lemma run_tallies_ok:
  "run evs s = Inr s' \<Longrightarrow>
   (\<And>key tid tal. tally_of s key tid = Some tal \<Longrightarrow> tally_ok tal) \<Longrightarrow>
   tally_of s' key tid = Some tal \<Longrightarrow> tally_ok tal"
proof (induction evs arbitrary: s)
  case Nil
  then show ?case by simp
next
  case (Cons e es)
  from Cons.prems(1) obtain s1 where s1: "step e s = Inr s1" and r: "run es s1 = Inr s'"
    by (auto split: sum.splits)
  have "\<And>key tid tal. tally_of s1 key tid = Some tal \<Longrightarrow> tally_ok tal"
    using step_tallies_ok [OF s1] Cons.prems(2) by blast
  from Cons.IH [OF r this Cons.prems(3)] show ?case .
qed

lemma init_no_tallies: "tally_of (init_orchestrator oid) key tid = None"
  by (simp add: tally_of_def init_orchestrator_def)

lemma recorded_votes_tally: "recorded_votes s tp tid = tally_votes (tally_of s (JStr tp) (Some tid))"
  by (simp add: recorded_votes_def tally_votes_def)

lemma process_votes_tally:
  assumes "\<forall>(tag, m) \<in> set ds. dict_get (payload m) ''vote_topic'' = JStr tp \<and> task_id m = Some tid"
  shows "\<exists>s'. process_votes ds s = Inr s'
           \<and> tally_of s' (JStr tp) (Some tid)
               = foldl (\<lambda>old m. Some (record_ballot (sender_id m) (dict_get (payload m) ''vote'') old))
                   (tally_of s (JStr tp) (Some tid)) (map snd ds)"
  using assms
proof (induction ds arbitrary: s)
  case Nil
  then show ?case by simp
next
  case (Cons d ds)
  obtain tag m where d: "d = (tag, m)" by (cases d) auto
  from Cons.prems have m: "dict_get (payload m) ''vote_topic'' = JStr tp" "task_id m = Some tid"
    and rest: "\<forall>(tag, m) \<in> set ds. dict_get (payload m) ''vote_topic'' = JStr tp \<and> task_id m = Some tid"
    by (auto simp: d)
  have "hashable (dict_get (payload m) ''vote_topic'')" by (simp add: m)
  from process_vote_effect [OF this, of tag s] obtain s1 where
    s1: "process_vote_message tag m s = Inr s1"
    and t1: "tally_of s1 (JStr tp) (Some tid)
               = Some (record_ballot (sender_id m) (dict_get (payload m) ''vote'')
                        (tally_of s (JStr tp) (Some tid)))"
    by (auto simp: m)
  from Cons.IH [OF rest, of s1] obtain s' where
    "process_votes ds s1 = Inr s'"
    "tally_of s' (JStr tp) (Some tid)
       = foldl (\<lambda>old m. Some (record_ballot (sender_id m) (dict_get (payload m) ''vote'') old))
           (tally_of s1 (JStr tp) (Some tid)) (map snd ds)"
    by blast
  then show ?case by (simp add: d s1 t1)
qed

lemma ballots_votes:
  "distinct (map sender_id ms) \<Longrightarrow>
   tally_votes (foldl (\<lambda>old m. Some (record_ballot (sender_id m) (dict_get (payload m) ''vote'') old)) old ms)
     = tally_votes old
       @ map (\<lambda>m. dict_get (payload m) ''vote'')
           (filter (\<lambda>m. sender_id m \<notin> set (tally_agents old)) ms)"
proof (induction ms arbitrary: old)
  case Nil
  then show ?case by simp
next
  case (Cons m ms)
  let ?old' = "Some (record_ballot (sender_id m) (dict_get (payload m) ''vote'') old)"
  from Cons.prems have d: "distinct (map sender_id ms)"
    and nin0: "sender_id m \<notin> sender_id ` set ms"
    by auto
  have nin: "sender_id x \<noteq> sender_id m" if "x \<in> set ms" for x
    using nin0 that by (metis imageI)
  have filt: "filter (\<lambda>x. sender_id x \<notin> set (tally_agents ?old')) ms
                = filter (\<lambda>x. sender_id x \<notin> set (tally_agents old)) ms"
    using nin
    by (intro filter_cong refl)
       (auto simp: tally_agents_def record_ballot_def Let_def split: option.splits)
  show ?case
  proof (cases "sender_id m \<in> set (tally_agents old)")
    case True
    then have "tally_votes ?old' = tally_votes old"
      by (auto simp: tally_agents_def tally_votes_def record_ballot_def Let_def split: option.splits)
    with True show ?thesis using Cons.IH [OF d, of ?old'] filt by simp
  next
    case False
    then have "tally_votes ?old' = tally_votes old @ [dict_get (payload m) ''vote'']"
      by (auto simp: tally_agents_def tally_votes_def record_ballot_def Let_def split: option.splits)
    with False show ?thesis using Cons.IH [OF d, of ?old'] filt by simp
  qed
qed

lemma top_options_mset:
  assumes "mset vs = mset vs'"
  shows "top_options vs = top_options vs'"
proof -
  from assms have "mset (map py_str vs) = mset (map py_str vs')" by simp
  then have "set (map py_str vs) = set (map py_str vs')"
    and "\<And>k. count_list (map py_str vs) k = count_list (map py_str vs') k"
    by (metis mset_eq_setD, metis count_mset)
  then show ?thesis unfolding top_options_def by (simp del: set_map)
qed

lemma consensus_values_top:
  assumes "recorded_votes s tp tid = vs" "vs \<noteq> []"
  shows "consensus_values (fst (coordinate_consensus tp tid s)) = JStr ` top_options vs"
proof -
  let ?ws = "snd (most_common (count_votes vs []) 0 [])"
  note f = consensus_fields(4) [OF assms]
  note w = winning_votes_top [OF assms(2)]
  show ?thesis
  proof (cases "length ?ws = 1")
    case True
    then obtain w0 where w0: "?ws = [w0]" by (cases ?ws) auto
    with w(1) have "top_options vs = {w0}" by simp
    with f w0 show ?thesis by (simp add: consensus_values_def)
  next
    case False
    with f w(1) show ?thesis by (simp add: consensus_values_def)
  qed
qed

lemma vote_counts_map_eq:
  assumes "recorded_votes s tp tid = vs" "vs \<noteq> []"
  shows "vote_counts_map (fst (coordinate_consensus tp tid s)) k
           = (if k \<in> set (map py_str vs)
              then Some (JInt (int (count_list (map py_str vs) k))) else None)"
  using consensus_fields(2) [OF assms]
  by (simp add: vote_counts_map_def map_of_counts_json count_votes_empty)

lemma no_votes_fields:
  assumes "recorded_votes s tp tid = []"
  shows "vote_counts_map (fst (coordinate_consensus tp tid s)) = Map.empty"
    and "consensus_values (fst (coordinate_consensus tp tid s)) = {}"
    and "map_of (fst (coordinate_consensus tp tid s)) ''total_votes'' = None"
  using assms
  by (auto simp: recorded_votes_def coordinate_consensus_def no_votes_result_def Let_def
        vote_counts_map_def consensus_values_def split: option.splits)

lemma consensus_depends_on_mset:
  assumes "mset (recorded_votes s1 tp tid) = mset (recorded_votes s2 tp tid)"
  shows "map_of (fst (coordinate_consensus tp tid s1)) ''status''
           = map_of (fst (coordinate_consensus tp tid s2)) ''status''"
    and "vote_counts_map (fst (coordinate_consensus tp tid s1))
           = vote_counts_map (fst (coordinate_consensus tp tid s2))"
    and "consensus_values (fst (coordinate_consensus tp tid s1))
           = consensus_values (fst (coordinate_consensus tp tid s2))"
    and "map_of (fst (coordinate_consensus tp tid s1)) ''total_votes''
           = map_of (fst (coordinate_consensus tp tid s2)) ''total_votes''"
proof -
  let ?v1 = "recorded_votes s1 tp tid" and ?v2 = "recorded_votes s2 tp tid"
  have top: "top_options ?v1 = top_options ?v2" using assms by (rule top_options_mset)
  have len: "length ?v1 = length ?v2" using assms by (rule mset_eq_length)
  from assms have "mset (map py_str ?v1) = mset (map py_str ?v2)" by simp
  then have st: "set (map py_str ?v1) = set (map py_str ?v2)"
    and cl: "\<And>k. count_list (map py_str ?v1) k = count_list (map py_str ?v2) k"
    by (metis mset_eq_setD, metis count_mset)
  show "map_of (fst (coordinate_consensus tp tid s1)) ''status''
           = map_of (fst (coordinate_consensus tp tid s2)) ''status''"
  proof (cases "?v1 = []")
    case True
    with len have "?v2 = []" by simp
    with True show ?thesis by (simp add: consensus_no_votes)
  next
    case False
    with len have ne2: "?v2 \<noteq> []" by auto
    show ?thesis
      using consensus_fields(3) [OF refl False] consensus_fields(3) [OF refl ne2]
        winners_length_card [OF False] winners_length_card [OF ne2] top by simp
  qed
  show "vote_counts_map (fst (coordinate_consensus tp tid s1))
           = vote_counts_map (fst (coordinate_consensus tp tid s2))"
  proof (cases "?v1 = []")
    case True
    with len have "?v2 = []" by simp
    with True show ?thesis by (simp add: no_votes_fields)
  next
    case False
    with len have ne2: "?v2 \<noteq> []" by auto
    show ?thesis
      by (rule ext) (simp only: vote_counts_map_eq [OF refl False] vote_counts_map_eq [OF refl ne2] st cl)
  qed
  show "consensus_values (fst (coordinate_consensus tp tid s1))
           = consensus_values (fst (coordinate_consensus tp tid s2))"
  proof (cases "?v1 = []")
    case True
    with len have "?v2 = []" by simp
    with True show ?thesis by (simp add: no_votes_fields)
  next
    case False
    with len have ne2: "?v2 \<noteq> []" by auto
    show ?thesis
      by (simp only: consensus_values_top [OF refl False] consensus_values_top [OF refl ne2] top)
  qed
  show "map_of (fst (coordinate_consensus tp tid s1)) ''total_votes''
           = map_of (fst (coordinate_consensus tp tid s2)) ''total_votes''"
  proof (cases "?v1 = []")
    case True
    with len have "?v2 = []" by simp
    with True show ?thesis by (simp add: no_votes_fields)
  next
    case False
    with len have ne2: "?v2 \<noteq> []" by auto
    show ?thesis
      by (simp only: consensus_fields(1) [OF refl False] consensus_fields(1) [OF refl ne2] len)
  qed
qed

section \<open>Lemmas: the scenarios\<close>

lemmas scen_defs = orch0_def init_orchestrator_def vote_msg_def votes_a_def votes_b_def
  scenario_a_def scenario_b_def process_vote_message_def Let_def dict_get_def tally_of_def
  print_def basic_ack_def recorded_votes_def

lemma recorded_a: "recorded_votes scenario_a ''approve_code_fix'' ''t1''
                     = [JStr ''Approve'', JStr ''Approve'', JStr ''Reject'']"
  by (simp add: scen_defs)

lemma recorded_b: "recorded_votes scenario_b ''approve_code_fix'' ''t1''
                     = [JStr ''Approve'', JStr ''Reject'']"
  by (simp add: scen_defs)

lemma recorded_0: "recorded_votes orch0 ''approve_code_fix'' ''t1'' = []"
  by (simp add: scen_defs)

lemma top_a: "top_options [JStr ''Approve'', JStr ''Approve'', JStr ''Reject''] = {''Approve''}"
  by (auto simp: top_options_def py_str_def)

lemma top_b: "top_options [JStr ''Approve'', JStr ''Reject''] = {''Approve'', ''Reject''}"
  by (auto simp: top_options_def py_str_def)

lemma run_events_d: "\<not> isl (run events_d scenario_d)"
  by (simp add: events_d_def scenario_d_def ghost_vote_def process_vote_message_def Let_def
        dict_get_def)

lemma run_events_redraw: "\<not> isl (run events_redraw scenario_d)"
  by (simp add: events_redraw_def scenario_d_def ghost_vote_def process_vote_message_def
        Let_def dict_get_def)

section \<open>Lemmas: encoding and decoding JSON text\<close>

lemma hex_val_digit: "d < 16 \<Longrightarrow> hex_val (''0123456789abcdef'' ! d) = Some d"
proof -
  assume "d < 16"
  then have "d = 0 \<or> d = 1 \<or> d = 2 \<or> d = 3 \<or> d = 4 \<or> d = 5 \<or> d = 6 \<or> d = 7
      \<or> d = 8 \<or> d = 9 \<or> d = 10 \<or> d = 11 \<or> d = 12 \<or> d = 13 \<or> d = 14 \<or> d = 15"
    by arith
  then show ?thesis by (elim disjE) (simp_all add: hex_val_def)
qed

lemma hex4_hex2: "hex4 (CHR ''0'') (CHR ''0'') (hex2 c ! 0) (hex2 c ! 1) = Some (of_char c)"
proof -
  have "(of_char c :: nat) div 16 < 16" using nat_of_char_less_256 [of c] by arith
  moreover have "(of_char c :: nat) mod 16 < 16" by simp
  moreover have "hex_val (CHR ''0'') = Some 0" by (simp add: hex_val_def)
  ultimately show ?thesis
    by (simp add: hex4_def hex2_def hex_val_digit)
qed

lemma scanstring_dumps_char:
  "scanstring (dumps_char c @ tail) =
     (case scanstring tail of Inl err \<Rightarrow> Inl err | Inr (s, rest) \<Rightarrow> Inr (c # s, rest))"
proof -
  consider (esc) "c \<in> {CHR 0x22, CHR 0x5C, CHR 0x0A, CHR 0x0D, CHR 0x09, CHR 0x08, CHR 0x0C}"
    | (plain) "c \<notin> {CHR 0x22, CHR 0x5C, CHR 0x0A, CHR 0x0D, CHR 0x09, CHR 0x08, CHR 0x0C}"
        "32 \<le> (of_char c :: nat) \<and> (of_char c :: nat) \<le> 126"
    | (uni) "c \<notin> {CHR 0x22, CHR 0x5C, CHR 0x0A, CHR 0x0D, CHR 0x09, CHR 0x08, CHR 0x0C}"
        "\<not> (32 \<le> (of_char c :: nat) \<and> (of_char c :: nat) \<le> 126)"
    by blast
  then show ?thesis
  proof cases
    case esc
    then show ?thesis by (auto simp: dumps_char_def unescape_def)
  next
    case plain
    then show ?thesis by (auto simp: dumps_char_def)
  next
    case uni
    have "dumps_char c = [CHR 0x5C, CHR ''u'', CHR ''0'', CHR ''0'', hex2 c ! 0, hex2 c ! 1]"
      using uni by (simp add: dumps_char_def hex2_def)
    then show ?thesis using hex4_hex2 [of c] by (simp split: sum.splits)
  qed
qed

lemma scanstring_dumps:
  "scanstring (concat (map dumps_char s) @ CHR 0x22 # rest) = Inr (s, rest)"
  by (induction s) (simp_all add: scanstring_dumps_char)

lemma digit_char: "d < 10 \<Longrightarrow> (of_char (''0123456789'' ! d) :: nat) = 48 + d"
proof -
  assume "d < 10"
  then have "d = 0 \<or> d = 1 \<or> d = 2 \<or> d = 3 \<or> d = 4 \<or> d = 5 \<or> d = 6 \<or> d = 7 \<or> d = 8 \<or> d = 9"
    by arith
  then show ?thesis by (elim disjE) simp_all
qed

lemma str_nat_digits: "c \<in> set (str_nat n) \<Longrightarrow> is_digit c"
proof (induction n rule: str_nat.induct)
  case (1 n)
  show ?case
  proof (cases "n < 10")
    case True
    with "1.prems" show ?thesis by (simp add: str_nat.simps [of n] is_digit_def digit_char)
  next
    case False
    with "1.prems" "1.IH" show ?thesis
      by (auto simp: str_nat.simps [of n] is_digit_def digit_char)
  qed
qed

lemma str_nat_nonempty: "str_nat n \<noteq> []"
  by (subst str_nat.simps) simp

lemma str_nat_hd: "(hd (str_nat n) = CHR ''0'') = (n = 0)"
proof (induction n rule: str_nat.induct)
  case (1 n)
  show ?case
  proof (cases "n < 10")
    case True
    then have h: "hd (str_nat n) = ''0123456789'' ! n"
      by (subst str_nat.simps) simp
    have o: "(of_char (hd (str_nat n)) :: nat) = 48 + n"
      unfolding h using True by (rule digit_char)
    show ?thesis
    proof
      assume "hd (str_nat n) = CHR ''0''"
      with o have "(of_char (CHR ''0'') :: nat) = 48 + n" by simp
      then show "n = 0" by simp
    next
      assume "n = 0"
      then show "hd (str_nat n) = CHR ''0''" unfolding h by simp
    qed
  next
    case False
    then have "str_nat n = str_nat (n div 10) @ [''0123456789'' ! (n mod 10)]"
      by (subst str_nat.simps) simp
    then have "hd (str_nat n) = hd (str_nat (n div 10))"
      by (simp add: str_nat_nonempty)
    moreover have "n div 10 \<noteq> 0" using False by arith
    moreover have "n \<noteq> 0" using False by arith
    ultimately show ?thesis using "1.IH" [OF False] by simp
  qed
qed

lemma digits_val_str_nat_gen:
  "foldl (\<lambda>a c. 10 * a + ((of_char c :: nat) - 48)) a (str_nat n)
     = a * 10 ^ length (str_nat n) + n"
proof (induction n arbitrary: a rule: str_nat.induct)
  case (1 n)
  let ?g = "\<lambda>a c. 10 * a + ((of_char c :: nat) - 48)"
  show ?case
  proof (cases "n < 10")
    case True
    then show ?thesis by (simp add: str_nat.simps [of n] digit_char)
  next
    case False
    have "n mod 10 < 10" by simp
    then have d: "(of_char (''0123456789'' ! (n mod 10)) :: nat) = 48 + n mod 10" by (rule digit_char)
    have unf: "str_nat n = str_nat (n div 10) @ [''0123456789'' ! (n mod 10)]"
      using False by (subst str_nat.simps) simp
    have "foldl ?g a (str_nat n) = 10 * foldl ?g a (str_nat (n div 10)) + n mod 10"
      unfolding unf by (simp add: d)
    also have "\<dots> = 10 * (a * 10 ^ length (str_nat (n div 10)) + n div 10) + n mod 10"
      using "1.IH" [OF False] by simp
    also have "\<dots> = a * 10 ^ length (str_nat n) + n"
      unfolding unf by (simp add: algebra_simps)
    finally show ?thesis .
  qed
qed

lemma digits_val_str_nat: "digits_val (str_nat n) = n"
  by (simp add: digits_val_def digits_val_str_nat_gen)

lemma at_delim_no_float: "at_delim rest \<Longrightarrow> \<not> is_float_tail rest"
  by (cases rest) (auto simp: at_delim_def is_float_tail_def)

lemma at_delim_takeWhile:
  assumes "at_delim rest" "\<forall>c \<in> set ds. is_digit c"
  shows "takeWhile is_digit (ds @ rest) = ds"
proof -
  have "takeWhile is_digit rest = []"
    using assms(1) by (cases rest) (auto simp: at_delim_def is_digit_def)
  with assms(2) show ?thesis by (simp add: takeWhile_append2)
qed

lemma match_number_digits:
  assumes "\<forall>c \<in> set (d # ds). is_digit c" "d = CHR ''0'' \<longrightarrow> ds = []" "at_delim rest"
  shows "match_number (d # ds @ rest) = Inr (JInt (int (digits_val (d # ds))), rest)"
    and "match_number (CHR ''-'' # d # ds @ rest) = Inr (JInt (- int (digits_val (d # ds))), rest)"
proof -
  have dig: "is_digit d" and digs: "\<forall>c \<in> set ds. is_digit c" using assms(1) by auto
  have nm: "d \<noteq> CHR ''-''" using dig by (auto simp: is_digit_def)
  have tw: "takeWhile is_digit (ds @ rest) = ds" by (rule at_delim_takeWhile [OF assms(3) digs])
  have nf: "\<not> is_float_tail rest" by (rule at_delim_no_float [OF assms(3)])
  show "match_number (d # ds @ rest) = Inr (JInt (int (digits_val (d # ds))), rest)"
    using assms(2) by (simp add: match_number_def Let_def dig nm tw nf)
  show "match_number (CHR ''-'' # d # ds @ rest) = Inr (JInt (- int (digits_val (d # ds))), rest)"
    using assms(2) by (simp add: match_number_def Let_def dig tw nf)
qed

lemma str_nat_shape:
  obtains d ds where "str_nat n = d # ds" "\<forall>c \<in> set (d # ds). is_digit c"
    "d = CHR ''0'' \<longrightarrow> ds = [] \<and> n = 0" "n \<noteq> 0 \<longrightarrow> d \<noteq> CHR ''0''"
proof -
  obtain d ds where s: "str_nat n = d # ds" using str_nat_nonempty [of n] by (cases "str_nat n") auto
  have a: "\<forall>c \<in> set (d # ds). is_digit c" using str_nat_digits [of _ n] s by auto
  have b: "(d = CHR ''0'') = (n = 0)" using str_nat_hd [of n] s by simp
  have "str_nat 0 = ''0''" by (subst str_nat.simps) simp
  with b s have c: "d = CHR ''0'' \<longrightarrow> ds = [] \<and> n = 0" by auto
  from s a b c that show thesis by blast
qed

lemma match_number_int:
  assumes "at_delim rest"
  shows "match_number (str_int i @ rest) = Inr (JInt i, rest)"
proof -
  obtain d ds where s: "str_nat (nat \<bar>i\<bar>) = d # ds" and dg: "\<forall>c \<in> set (d # ds). is_digit c"
    and z: "d = CHR ''0'' \<longrightarrow> ds = [] \<and> nat \<bar>i\<bar> = 0"
    by (rule str_nat_shape [of "nat \<bar>i\<bar>"]) blast
  from z have z': "d = CHR ''0'' \<longrightarrow> ds = []" by simp
  have dv: "digits_val (d # ds) = nat \<bar>i\<bar>" using digits_val_str_nat [of "nat \<bar>i\<bar>"] s by simp
  show ?thesis
  proof (cases "i < 0")
    case False
    then have "str_int i @ rest = d # ds @ rest" using s by (simp add: str_int_def)
    with match_number_digits(1) [OF dg z' assms] dv False show ?thesis by simp
  next
    case True
    then have "nat (- i) = nat \<bar>i\<bar>" by simp
    with True have "str_int i @ rest = CHR ''-'' # d # ds @ rest" using s by (simp add: str_int_def)
    with match_number_digits(2) [OF dg z' assms] dv True show ?thesis by simp
  qed
qed

lemma skip_ws_non_ws [simp]: "\<not> is_ws c \<Longrightarrow> skip_ws (c # cs) = c # cs"
  by (simp add: skip_ws_def)

lemma skip_ws_space [simp]: "skip_ws (CHR '' '' # cs) = skip_ws cs"
  by (simp add: skip_ws_def is_ws_def)

lemma skip_ws_Nil [simp]: "skip_ws [] = []"
  by (simp add: skip_ws_def)

lemma str_int_shape:
  obtains d ds where "str_int i = d # ds" "is_digit d \<or> (d = CHR ''-'' \<and> ds \<noteq> [] \<and> is_digit (hd ds))"
proof -
  obtain d ds where s: "str_nat (nat \<bar>i\<bar>) = d # ds" and dg: "\<forall>c \<in> set (d # ds). is_digit c"
    by (rule str_nat_shape [of "nat \<bar>i\<bar>"]) blast
  show thesis
  proof (cases "i < 0")
    case False
    then have "str_int i = d # ds" using s by (simp add: str_int_def)
    with dg that show thesis by auto
  next
    case True
    then have "nat (- i) = nat \<bar>i\<bar>" by simp
    with True have "str_int i = CHR ''-'' # d # ds" using s by (simp add: str_int_def)
    with dg that show thesis by auto
  qed
qed

lemma digit_not_special:
  assumes "is_digit d"
  shows "d \<noteq> CHR 0x22" "d \<noteq> CHR ''{''" "d \<noteq> CHR ''[''" "d \<noteq> CHR ''n''" "d \<noteq> CHR ''t''"
    "d \<noteq> CHR ''f''" "d \<noteq> CHR ''N''" "d \<noteq> CHR ''I''" "d \<noteq> CHR ''-''"
    "d \<noteq> CHR '']''" "d \<noteq> CHR ''}''" "d \<noteq> CHR '',''" "\<not> is_ws d"
  using assms by (auto simp: is_digit_def is_ws_def)

lemma value_start_simps:
  "value_start (CHR ''n'')" "value_start (CHR ''t'')" "value_start (CHR ''f'')"
  "value_start (CHR 0x22)" "value_start (CHR ''['')" "value_start (CHR ''{'')"
  "value_start (CHR ''-'')"
  by (simp_all add: value_start_def is_ws_def)

lemma dumps_start: "\<exists>c cs. dumps v = c # cs \<and> value_start c"
proof (cases v)
  case JNull
  then show ?thesis by (simp add: value_start_simps)
next
  case (JBool b)
  then show ?thesis by (simp add: value_start_simps)
next
  case (JInt i)
  obtain d ds where "str_int i = d # ds"
    "is_digit d \<or> (d = CHR ''-'' \<and> ds \<noteq> [] \<and> is_digit (hd ds))"
    by (rule str_int_shape)
  moreover have "is_digit d \<Longrightarrow> value_start d"
    using digit_not_special [of d] by (simp add: value_start_def)
  ultimately show ?thesis using JInt value_start_simps(7) by auto
next
  case (JStr s)
  then show ?thesis by (simp add: value_start_simps dumps_str_def)
next
  case (JList xs)
  then show ?thesis by (simp add: value_start_simps)
next
  case (JObj kvs)
  then show ?thesis by (simp add: value_start_simps)
qed

lemma scan_once_int:
  assumes "at_delim rest"
  shows "scan_once (Suc n) (str_int i @ rest) = Inr (JInt i, rest)"
proof -
  obtain d ds where s: "str_int i = d # ds"
    and c: "is_digit d \<or> (d = CHR ''-'' \<and> ds \<noteq> [] \<and> is_digit (hd ds))"
    by (rule str_int_shape)
  have "scan_once (Suc n) (d # ds @ rest) = match_number (d # ds @ rest)"
  proof (cases "is_digit d")
    case True
    note ns = digit_not_special [OF True]
    show ?thesis by (simp add: starts_with_def ns)
  next
    case False
    with c obtain e es where d: "d = CHR ''-''" "ds = e # es" and e: "is_digit e" by (cases ds) auto
    note ns = digit_not_special [OF e]
    show ?thesis unfolding d by (simp add: starts_with_def ns)
  qed
  then show ?thesis using match_number_int [OF assms, of i] s by simp
qed

lemma scan_once_str:
  "scan_once (Suc n) (dumps_str s @ rest) = Inr (JStr s, rest)"
  by (simp add: dumps_str_def scanstring_dumps)

lemma at_delim_simps [simp]:
  "at_delim []" "at_delim (CHR '','' # s)" "at_delim (CHR '']'' # s)" "at_delim (CHR ''}'' # s)"
  by (simp_all add: at_delim_def)

lemma skip_ws_value:
  assumes "dumps v = c # cs" "value_start c"
  shows "skip_ws (dumps v @ s) = dumps v @ s"
  using assms by (simp add: value_start_def)

lemma skip_ws_dumps [simp]: "skip_ws (dumps v @ s) = dumps v @ s"
  using dumps_start [of v] skip_ws_value by blast

lemma not_ws_simps [simp]:
  "\<not> is_ws (CHR '','')" "\<not> is_ws (CHR '']'')" "\<not> is_ws (CHR ''}'')" "\<not> is_ws (CHR '':'')"
  "\<not> is_ws (CHR 0x22)"
  by (simp_all add: is_ws_def)

lemma str_join_Cons: "str_join sep (x # xs) = x @ (if xs = [] then [] else sep @ str_join sep xs)"
  by (cases xs) auto

lemma skip_ws_join_dumps [simp]:
  "skip_ws (str_join sep (dumps v # ps) @ s) = str_join sep (dumps v # ps) @ s"
  by (simp only: str_join_Cons append_assoc skip_ws_dumps)

lemma parse_array_dumps:
  assumes "\<And>x fuel rest. x \<in> set xs \<Longrightarrow> fuel_of x \<le> fuel \<Longrightarrow> at_delim rest \<Longrightarrow>
             scan_once fuel (dumps x @ rest) = Inr (x, rest)"
    and "xs \<noteq> []"
    and "sum_list (map (\<lambda>x. Suc (fuel_of x)) xs) \<le> fuel"
  shows "parse_array fuel (str_join '', '' (map dumps xs) @ CHR '']'' # rest) acc
           = Inr (JList (acc @ xs), rest)"
  using assms
proof (induction xs arbitrary: fuel acc)
  case Nil
  then show ?case by simp
next
  case (Cons x xs)
  from Cons.prems(3) obtain n where n: "fuel = Suc n" and nx: "fuel_of x \<le> n"
    and nxs: "sum_list (map (\<lambda>x. Suc (fuel_of x)) xs) \<le> n"
    by (cases fuel) auto
  show ?case
  proof (cases xs)
    case Nil
    have "scan_once n (dumps x @ CHR '']'' # rest) = Inr (x, CHR '']'' # rest)"
      using Cons.prems(1) [of x n "CHR '']'' # rest"] nx by simp
    then show ?thesis by (simp add: n Nil)
  next
    case (Cons y ys)
    let ?tail = "str_join '', '' (map dumps (y # ys)) @ CHR '']'' # rest"
    have sc: "scan_once n (dumps x @ CHR '','' # CHR '' '' # ?tail)
                = Inr (x, CHR '','' # CHR '' '' # ?tail)"
      using Cons.prems(1) [of x n "CHR '','' # CHR '' '' # ?tail"] nx by simp
    have sk: "skip_ws ?tail = ?tail" by simp
    have p1: "\<And>x fuel rest. x \<in> set xs \<Longrightarrow> fuel_of x \<le> fuel \<Longrightarrow> at_delim rest \<Longrightarrow>
             scan_once fuel (dumps x @ rest) = Inr (x, rest)"
      using Cons.prems(1) by simp
    have ne: "xs \<noteq> []" using Cons by simp
    have ih: "parse_array n ?tail (acc @ [x]) = Inr (JList ((acc @ [x]) @ xs), rest)"
      using Cons.IH [OF p1 ne nxs, of "acc @ [x]"] by (simp only: Cons)
    show ?thesis using sc ih sk by (simp add: n Cons)
  qed
qed

lemma dumps_JObj: "dumps (JObj kvs) = ''{'' @ str_join '', '' (map dumps_item kvs) @ ''}''"
proof -
  have "(\<lambda>(k, r). dumps_str k @ '': '' @ r) \<circ> map_prod id dumps = dumps_item"
    by (auto simp: fun_eq_iff dumps_item_def)
  then show ?thesis by simp
qed

lemma skip_ws_quote [simp]: "skip_ws (dumps_str k @ s) = dumps_str k @ s"
  by (simp add: dumps_str_def)

lemma skip_ws_join_item [simp]:
  "skip_ws (str_join sep (dumps_item kv # ps) @ s) = str_join sep (dumps_item kv # ps) @ s"
  by (simp only: str_join_Cons append_assoc dumps_item_def skip_ws_quote)

lemma update_fresh: "k \<notin> fst ` set d \<Longrightarrow> AList.update k v d = d @ [(k, v)]"
  by (induction d) auto

lemma dict_of_pairs_gen:
  "distinct (map fst (d @ kvs)) \<Longrightarrow>
   foldl (\<lambda>d (k, v). AList.update k v d) d kvs = d @ kvs"
proof (induction kvs arbitrary: d)
  case Nil
  then show ?case by simp
next
  case (Cons kv kvs)
  obtain k v where kv: "kv = (k, v)" by (cases kv) auto
  from Cons.prems have "k \<notin> fst ` set d" by (auto simp: kv)
  then have u: "AList.update k v d = d @ [(k, v)]" by (rule update_fresh)
  from Cons.prems have "distinct (map fst ((d @ [(k, v)]) @ kvs))" by (simp add: kv)
  from Cons.IH [OF this] show ?case by (simp add: kv u)
qed

lemma dict_of_pairs_distinct: "distinct (map fst kvs) \<Longrightarrow> dict_of_pairs kvs = kvs"
  using dict_of_pairs_gen [of "[]" kvs] by (simp add: dict_of_pairs_def)

lemma parse_object_step:
  assumes "scan_once n (dumps x @ t) = Inr (x, t)"
  shows "parse_object (Suc n) (dumps_item (k, x) @ t) pairs =
           (case skip_ws t of
              [] \<Rightarrow> Inl (JSONDecodeError ''Expecting , delimiter'')
            | c2 # rest3 \<Rightarrow>
                if c2 = CHR ''}''
                then Inr (JObj (dict_of_pairs (pairs @ [(k, x)])), rest3)
                else if c2 = CHR '',''
                then parse_object n (skip_ws rest3) (pairs @ [(k, x)])
                else Inl (JSONDecodeError ''Expecting , delimiter''))"
  using assms by (simp add: dumps_item_def dumps_str_def scanstring_dumps)

lemma parse_object_dumps:
  assumes "\<And>k x fuel rest. (k, x) \<in> set kvs \<Longrightarrow> fuel_of x \<le> fuel \<Longrightarrow> at_delim rest \<Longrightarrow>
             scan_once fuel (dumps x @ rest) = Inr (x, rest)"
    and "kvs \<noteq> []"
    and "sum_list (map (\<lambda>kv. Suc (fuel_of (snd kv))) kvs) \<le> fuel"
  shows "parse_object fuel (str_join '', '' (map dumps_item kvs) @ CHR ''}'' # rest) pairs
           = Inr (JObj (dict_of_pairs (pairs @ kvs)), rest)"
  using assms
proof (induction kvs arbitrary: fuel pairs)
  case Nil
  then show ?case by simp
next
  case (Cons kv kvs)
  obtain k x where kv: "kv = (k, x)" by (cases kv) auto
  from Cons.prems(3) obtain n where n: "fuel = Suc n" and nx: "fuel_of x \<le> n"
    and nxs: "sum_list (map (\<lambda>kv. Suc (fuel_of (snd kv))) kvs) \<le> n"
    by (cases fuel) (auto simp: kv)
  show ?case
  proof (cases kvs)
    case Nil
    have sc: "scan_once n (dumps x @ CHR ''}'' # rest) = Inr (x, CHR ''}'' # rest)"
      using Cons.prems(1) [of k x n "CHR ''}'' # rest"] nx by (simp add: kv)
    have shape0: "str_join '', '' (map dumps_item (kv # kvs)) @ CHR ''}'' # rest
            = dumps_item (k, x) @ CHR ''}'' # rest"
      by (simp add: Nil kv)
    show ?thesis
      unfolding n shape0 parse_object_step [OF sc] by (simp add: Nil kv)
  next
    case (Cons kv2 kvs2)
    let ?tail = "str_join '', '' (map dumps_item kvs) @ CHR ''}'' # rest"
    have sc: "scan_once n (dumps x @ CHR '','' # CHR '' '' # ?tail)
                = Inr (x, CHR '','' # CHR '' '' # ?tail)"
      using Cons.prems(1) [of k x n "CHR '','' # CHR '' '' # ?tail"] nx by (simp add: kv)
    have sk: "skip_ws ?tail = ?tail" unfolding Cons list.map by (rule skip_ws_join_item)
    have p1: "scan_once f (dumps x' @ r) = Inr (x', r)"
      if "(k', x') \<in> set kvs" "fuel_of x' \<le> f" "at_delim r" for k' x' f r
      using Cons.prems(1) [of k' x' f r] that by simp
    have ne: "kvs \<noteq> []" using Cons by simp
    have ih: "parse_object n ?tail (pairs @ [(k, x)])
                = Inr (JObj (dict_of_pairs ((pairs @ [(k, x)]) @ kvs)), rest)"
      by (rule Cons.IH [OF p1 ne nxs, where pairs = "pairs @ [(k, x)]"])
    have shape: "str_join '', '' (map dumps_item (kv # kvs)) @ CHR ''}'' # rest
            = dumps_item (k, x) @ CHR '','' # CHR '' '' # ?tail"
      by (simp add: Cons kv)
    show ?thesis
      unfolding n shape parse_object_step [OF sc] using ih sk by (simp add: kv)
  qed
qed

lemma fuel_of_JList: "fuel_of (JList xs) = Suc (sum_list (map (\<lambda>x. Suc (fuel_of x)) xs))"
  by (simp add: comp_def)

lemma fuel_of_JObj: "fuel_of (JObj kvs) = Suc (sum_list (map (\<lambda>kv. Suc (fuel_of (snd kv))) kvs))"
  by (simp add: comp_def)

lemma wf_json_JList: "wf_json (JList xs) = (\<forall>x \<in> set xs. wf_json x)"
  by (simp add: list_all_iff)

lemma wf_json_JObj:
  "wf_json (JObj kvs) = (distinct (map fst kvs) \<and> (\<forall>(k, x) \<in> set kvs. wf_json x))"
  by (auto simp: list_all_iff)

lemma scan_once_dumps:
  "wf_json v \<Longrightarrow> fuel_of v \<le> fuel \<Longrightarrow> at_delim rest \<Longrightarrow>
   scan_once fuel (dumps v @ rest) = Inr (v, rest)"
proof (induction v arbitrary: fuel rest)
  case JNull
  then obtain n where "fuel = Suc n" by (cases fuel) auto
  then show ?case by (simp add: starts_with_def)
next
  case (JBool b)
  then obtain n where "fuel = Suc n" by (cases fuel) auto
  then show ?case by (simp add: starts_with_def)
next
  case (JInt i)
  then obtain n where "fuel = Suc n" by (cases fuel) auto
  then show ?case using scan_once_int [OF JInt.prems(3)] by simp
next
  case (JStr s)
  then obtain n where "fuel = Suc n" by (cases fuel) auto
  then show ?case using scan_once_str by simp
next
  case (JList xs)
  from JList.prems(2) obtain n where n: "fuel = Suc n"
    and nxs: "sum_list (map (\<lambda>x. Suc (fuel_of x)) xs) \<le> n"
    unfolding fuel_of_JList by (cases fuel) auto
  have wf: "\<forall>x \<in> set xs. wf_json x" using JList.prems(1) by (simp only: wf_json_JList)
  show ?case
  proof (cases xs)
    case Nil
    then show ?thesis by (simp add: n)
  next
    case (Cons y ys)
    have ih: "\<And>x fuel rest. x \<in> set xs \<Longrightarrow> fuel_of x \<le> fuel \<Longrightarrow> at_delim rest \<Longrightarrow>
             scan_once fuel (dumps x @ rest) = Inr (x, rest)"
      using JList.IH wf by blast
    have "xs \<noteq> []" using Cons by simp
    from parse_array_dumps [OF ih this nxs, of rest "[]"]
    have pa: "parse_array n (str_join '', '' (map dumps xs) @ CHR '']'' # rest) [] = Inr (JList xs, rest)"
      by simp
    obtain c cs where c: "dumps y = c # cs" "value_start c" using dumps_start [of y] by blast
    have st: "str_join '', '' (map dumps xs) @ CHR '']'' # rest
               = c # (cs @ (if ys = [] then [] else '', '' @ str_join '', '' (map dumps ys)) @ CHR '']'' # rest)"
      by (simp add: Cons str_join_Cons c)
    have nb: "c \<noteq> CHR '']''" "\<not> is_ws c" using c(2) by (simp_all add: value_start_def)
    show ?thesis using pa nb unfolding st by (simp add: n st)
  qed
next
  case (JObj kvs)
  from JObj.prems(2) obtain n where n: "fuel = Suc n"
    and nxs: "sum_list (map (\<lambda>kv. Suc (fuel_of (snd kv))) kvs) \<le> n"
    unfolding fuel_of_JObj by (cases fuel) auto
  have wf: "\<forall>(k, x) \<in> set kvs. wf_json x" and dk: "distinct (map fst kvs)"
    using JObj.prems(1) [unfolded wf_json_JObj] by blast+
  show ?case
  proof (cases kvs)
    case Nil
    then show ?thesis by (simp add: n)
  next
    case (Cons kv kvs2)
    have ih: "\<And>k x fuel rest. (k, x) \<in> set kvs \<Longrightarrow> fuel_of x \<le> fuel \<Longrightarrow> at_delim rest \<Longrightarrow>
             scan_once fuel (dumps x @ rest) = Inr (x, rest)"
    proof -
      fix k x fuel rest
      assume m: "(k, x) \<in> set kvs" and f: "fuel_of x \<le> fuel" and d: "at_delim rest"
      from m wf have "wf_json x" by auto
      moreover from m have "x \<in> Basic_BNFs.snds (k, x)" by simp
      ultimately show "scan_once fuel (dumps x @ rest) = Inr (x, rest)"
        using JObj.IH [OF m _ _ f d] by blast
    qed
    have "kvs \<noteq> []" using Cons by simp
    from parse_object_dumps [OF ih this nxs, where rest = rest and pairs = "[]"]
    have po: "parse_object n (str_join '', '' (map dumps_item kvs) @ CHR ''}'' # rest) []
                = Inr (JObj kvs, rest)"
      by (simp add: dict_of_pairs_distinct [OF dk])
    have st: "str_join '', '' (map dumps_item kvs) @ CHR ''}'' # rest
               = CHR 0x22 # (concat (map dumps_char (fst kv)) @ [CHR 0x22] @ '': '' @ dumps (snd kv)
                   @ (if kvs2 = [] then [] else '', '' @ str_join '', '' (map dumps_item kvs2))
                   @ CHR ''}'' # rest)"
      by (simp add: Cons str_join_Cons dumps_item_def dumps_str_def)
    show ?thesis using po unfolding dumps_JObj st by (simp add: n st)
  qed
qed

lemma join_fuel_bound:
  assumes "\<And>x. x \<in> set xs \<Longrightarrow> g x \<le> length (f x)"
  shows "sum_list (map (\<lambda>x. Suc (g x)) xs) \<le> length (str_join '', '' (map f xs)) + 1"
  using assms
proof (induction xs)
  case Nil
  then show ?case by simp
next
  case (Cons x xs)
  have "g x \<le> length (f x)" using Cons.prems by simp
  moreover have "sum_list (map (\<lambda>x. Suc (g x)) xs) \<le> length (str_join '', '' (map f xs)) + 1"
    using Cons.IH Cons.prems by simp
  ultimately show ?case by (simp add: str_join_Cons)
qed

lemma fuel_le_length: "fuel_of v \<le> length (dumps v)"
proof (induction v)
  case JNull
  then show ?case by simp
next
  case (JBool b)
  then show ?case by simp
next
  case (JInt i)
  obtain d ds where "str_int i = d # ds" by (rule str_int_shape)
  then show ?case by simp
next
  case (JStr s)
  then show ?case by (simp add: dumps_str_def)
next
  case (JList xs)
  have "sum_list (map (\<lambda>x. Suc (fuel_of x)) xs) \<le> length (str_join '', '' (map dumps xs)) + 1"
    by (rule join_fuel_bound) (rule JList.IH)
  then show ?case unfolding fuel_of_JList by simp
next
  case (JObj kvs)
  have "sum_list (map (\<lambda>kv. Suc (fuel_of (snd kv))) kvs)
          \<le> length (str_join '', '' (map dumps_item kvs)) + 1"
  proof (rule join_fuel_bound)
    fix kv assume m: "kv \<in> set kvs"
    have "snd kv \<in> Basic_BNFs.snds kv" by (cases kv) simp
    from JObj.IH [OF m this] show "fuel_of (snd kv) \<le> length (dumps_item kv)"
      by (simp add: dumps_item_def)
  qed
  then show ?case unfolding fuel_of_JObj dumps_JObj by simp
qed

lemma loads_dumps:
  assumes "wf_json v"
  shows "loads (dumps v) = Inr v"
proof -
  have "fuel_of v \<le> 2 * length (dumps v) + 1" using fuel_le_length [of v] by simp
  from scan_once_dumps [OF assms this, of "[]"]
  have "scan_once (2 * length (dumps v) + 1) (dumps v) = Inr (v, [])" by simp
  moreover have "skip_ws (dumps v) = dumps v" using skip_ws_dumps [of v "[]"] by simp
  ultimately show ?thesis by (simp add: loads_def)
qed

lemma from_dict_asdict: "from_dict (asdict m) = Inr m"
  by (cases "receiver_id m"; cases "task_id m")
     (simp_all add: from_dict_def asdict_def field_names_def opt_str_field_def opt_json_def)

lemma wf_asdict: "wf_json (JObj (payload m)) \<Longrightarrow> wf_json (JObj (asdict m))"
  by (cases "receiver_id m"; cases "task_id m") (simp_all add: asdict_def opt_json_def)

text \<open>
  With the fields of the record, a message whose payload stands for a Python dictionary
  is decoded from its own encoding unchanged.
\<close>

lemma from_json_to_json:
  assumes "wf_json (JObj (payload m))"
  shows "from_json (to_json m) = Inr m"
proof -
  have "loads (to_json m) = Inr (JObj (asdict m))"
    unfolding to_json_def by (rule loads_dumps [OF wf_asdict [OF assms]])
  then show ?thesis by (simp add: from_json_def from_dict_asdict)
qed

section \<open>The claims\<close>

subsection \<open>C1: the outcome of \<^verbatim>\<open>coordinate_consensus\<close>\<close>

text \<open>
  Claim C1, amended. \<^verbatim>\<open>coordinate_consensus\<close> always returns a result (the function
  is total: nothing is raised). When at least one vote is recorded for the key (topic,
  task id), \<^verbatim>\<open>total_votes\<close> is the number of recorded votes,
  \<^verbatim>\<open>vote_counts\<close> maps the string form of each vote to the number of recorded
  votes with that string form (and holds no other key), the status is
  \<^verbatim>\<open>"success"\<close> exactly when one option alone holds the maximum count, the
  consensus then being that option, and \<^verbatim>\<open>"tie"\<close> exactly when two or more
  options hold it, the consensus then being the list of those options, each once. When
  no vote is recorded, the result consists of the status \<^verbatim>\<open>"no_votes"\<close> and a
  message, and of nothing else.
\<close>

theorem coordinate_consensus_outcome:
  "(recorded_votes s vote_topic tid = [] \<longrightarrow>
      (\<exists>msg. fst (coordinate_consensus vote_topic tid s)
               = [(''status'', JStr ''no_votes''), (''message'', JStr msg)]))
   \<and> (recorded_votes s vote_topic tid \<noteq> [] \<longrightarrow>
        map_of (fst (coordinate_consensus vote_topic tid s)) ''total_votes''
          = Some (JInt (int (length (recorded_votes s vote_topic tid))))
      \<and> (\<exists>vc. map_of (fst (coordinate_consensus vote_topic tid s)) ''vote_counts'' = Some (JObj vc)
             \<and> (\<forall>k. map_of vc k =
                   (if k \<in> set (map py_str (recorded_votes s vote_topic tid))
                    then Some (JInt (int (count_list
                                 (map py_str (recorded_votes s vote_topic tid)) k)))
                    else None)))
      \<and> ((map_of (fst (coordinate_consensus vote_topic tid s)) ''status'' = Some (JStr ''success''))
           = (card (top_options (recorded_votes s vote_topic tid)) = 1))
      \<and> ((map_of (fst (coordinate_consensus vote_topic tid s)) ''status'' = Some (JStr ''tie''))
           = (card (top_options (recorded_votes s vote_topic tid)) \<ge> 2))
      \<and> (\<forall>w. top_options (recorded_votes s vote_topic tid) = {w} \<longrightarrow>
             map_of (fst (coordinate_consensus vote_topic tid s)) ''consensus'' = Some (JStr w))
      \<and> (card (top_options (recorded_votes s vote_topic tid)) \<ge> 2 \<longrightarrow>
           (\<exists>ws. map_of (fst (coordinate_consensus vote_topic tid s)) ''consensus''
                    = Some (JList (map JStr ws))
                \<and> distinct ws \<and> set ws = top_options (recorded_votes s vote_topic tid))))"
proof (intro conjI impI)
  assume "recorded_votes s vote_topic tid = []"
  then show "\<exists>msg. fst (coordinate_consensus vote_topic tid s)
               = [(''status'', JStr ''no_votes''), (''message'', JStr msg)]"
    by (auto simp: recorded_votes_def coordinate_consensus_def no_votes_result_def Let_def
             split: option.splits)
next
  let ?vs = "recorded_votes s vote_topic tid"
  let ?r = "fst (coordinate_consensus vote_topic tid s)"
  let ?ws = "snd (most_common (count_votes ?vs []) 0 [])"
  assume ne: "?vs \<noteq> []"
  note f = consensus_fields [OF refl ne]
  note w = winning_votes_top [OF ne]
  have len: "length ?ws = card (top_options ?vs)" by (rule winners_length_card [OF ne])
  have fin: "finite (top_options ?vs)" using w(1) [symmetric] by simp
  have pos: "card (top_options ?vs) \<ge> 1"
    using top_options_nonempty [OF ne] fin by (simp add: Suc_le_eq card_gt_0_iff)
  show "map_of ?r ''total_votes'' = Some (JInt (int (length ?vs)))" by (rule f(1))
  show "\<exists>vc. map_of ?r ''vote_counts'' = Some (JObj vc)
             \<and> (\<forall>k. map_of vc k =
                   (if k \<in> set (map py_str ?vs)
                    then Some (JInt (int (count_list (map py_str ?vs) k)))
                    else None))"
    using f(2) by (simp add: map_of_counts_json count_votes_empty)
  show "(map_of ?r ''status'' = Some (JStr ''success'')) = (card (top_options ?vs) = 1)"
    using f(3) len by simp
  show "(map_of ?r ''status'' = Some (JStr ''tie'')) = (card (top_options ?vs) \<ge> 2)"
    using f(3) len pos by auto
  show "\<forall>w. top_options ?vs = {w} \<longrightarrow> map_of ?r ''consensus'' = Some (JStr w)"
  proof (intro allI impI)
    fix w0 assume t: "top_options ?vs = {w0}"
    then have "length ?ws = 1" using len by simp
    moreover from this t w(1) have "hd ?ws = w0" by (cases ?ws) auto
    ultimately show "map_of ?r ''consensus'' = Some (JStr w0)" using f(4) by simp
  qed
  assume "card (top_options ?vs) \<ge> 2"
  then have "length ?ws \<noteq> 1" using len by simp
  then have "map_of ?r ''consensus'' = Some (JList (map JStr ?ws))" using f(4) by simp
  with w show "\<exists>ws. map_of ?r ''consensus'' = Some (JList (map JStr ws))
                \<and> distinct ws \<and> set ws = top_options ?vs" by blast
qed

text \<open>
  The instances: no vote recorded; the votes Approve, Approve, Reject of three agents
  (scenario A of the specification); the votes Approve, Reject of two agents (scenario B).
\<close>

theorem coordinate_consensus_outcome_witness:
  "recorded_votes orch0 ''approve_code_fix'' ''t1'' = []
   \<and> (\<exists>msg. fst (coordinate_consensus ''approve_code_fix'' ''t1'' orch0)
              = [(''status'', JStr ''no_votes''), (''message'', JStr msg)])
   \<and> recorded_votes scenario_a ''approve_code_fix'' ''t1'' \<noteq> []
   \<and> top_options (recorded_votes scenario_a ''approve_code_fix'' ''t1'') = {''Approve''}
   \<and> map_of (fst (coordinate_consensus ''approve_code_fix'' ''t1'' scenario_a)) ''total_votes''
       = Some (JInt 3)
   \<and> map_of (fst (coordinate_consensus ''approve_code_fix'' ''t1'' scenario_a)) ''status''
       = Some (JStr ''success'')
   \<and> map_of (fst (coordinate_consensus ''approve_code_fix'' ''t1'' scenario_a)) ''consensus''
       = Some (JStr ''Approve'')
   \<and> 2 \<le> card (top_options (recorded_votes scenario_b ''approve_code_fix'' ''t1''))
   \<and> map_of (fst (coordinate_consensus ''approve_code_fix'' ''t1'' scenario_b)) ''status''
       = Some (JStr ''tie'')"
proof -
  note a = coordinate_consensus_outcome [of scenario_a "''approve_code_fix''" "''t1''"]
  note b = coordinate_consensus_outcome [of scenario_b "''approve_code_fix''" "''t1''"]
  note z = coordinate_consensus_outcome [of orch0 "''approve_code_fix''" "''t1''"]
  have ca: "card (top_options (recorded_votes scenario_a ''approve_code_fix'' ''t1'')) = 1"
    by (simp add: recorded_a top_a)
  have cb: "card (top_options (recorded_votes scenario_b ''approve_code_fix'' ''t1'')) = 2"
    by (simp add: recorded_b top_b)
  from z recorded_0 have "\<exists>msg. fst (coordinate_consensus ''approve_code_fix'' ''t1'' orch0)
              = [(''status'', JStr ''no_votes''), (''message'', JStr msg)]" by blast
  moreover from a ca have "map_of (fst (coordinate_consensus ''approve_code_fix'' ''t1'' scenario_a)) ''status''
       = Some (JStr ''success'')" by (simp add: recorded_a)
  moreover from a have "map_of (fst (coordinate_consensus ''approve_code_fix'' ''t1'' scenario_a)) ''consensus''
       = Some (JStr ''Approve'')" by (simp add: recorded_a top_a)
  moreover from a have "map_of (fst (coordinate_consensus ''approve_code_fix'' ''t1'' scenario_a)) ''total_votes''
       = Some (JInt 3)" by (simp add: recorded_a)
  moreover from b cb have "map_of (fst (coordinate_consensus ''approve_code_fix'' ''t1'' scenario_b)) ''status''
       = Some (JStr ''tie'')" by (simp add: recorded_b)
  ultimately show ?thesis using recorded_0 ca cb by (simp add: recorded_a top_a)
qed

text \<open>
  Counterexample to C1 as stated: for a key without votes the result has no
  \<^verbatim>\<open>total_votes\<close> (which the claim puts at the number of recorded votes, zero)
  and no \<^verbatim>\<open>vote_counts\<close>; its keys are the status and the message.
\<close>

theorem no_votes_result_without_tally_fields:
  "recorded_votes orch0 ''approve_code_fix'' ''t1'' = []
   \<and> map_of (fst (coordinate_consensus ''approve_code_fix'' ''t1'' orch0)) ''total_votes'' = None
   \<and> map_of (fst (coordinate_consensus ''approve_code_fix'' ''t1'' orch0)) ''vote_counts'' = None
   \<and> map fst (fst (coordinate_consensus ''approve_code_fix'' ''t1'' orch0))
       = [''status'', ''message'']"
  by (simp add: recorded_0 no_votes_fields)
     (simp add: coordinate_consensus_def tally_of_def orch0_def init_orchestrator_def
        no_votes_result_def)

subsection \<open>C2: messages for a task that was never issued\<close>

text \<open>
  Claim C2, amended. A message delivered to \<^verbatim>\<open>collect_results\<close> whose task id is
  not in the registry is dropped: the call returns, the registry and the tallies are
  unchanged, and the console shows the line received and a warning. The vote callback
  does not consult the registry: for every topic that can be a dictionary key it
  returns, leaves the registry unchanged, and the tally of the key (topic, task id) is
  afterwards what \<open>record_ballot\<close> makes of the old one, whether or not the task id
  was ever issued.
\<close>

theorem unknown_result_dropped_votes_unchecked:
  "(unknown_task s m \<longrightarrow>
      tasks (collect_results tag m s) = tasks s
    \<and> active_votes (collect_results tag m s) = active_votes s
    \<and> stdout (collect_results tag m s) = stdout s @
        ['' [x] Received result for task '' @ str_opt (task_id m)
           @ '' from agent '' @ sender_id m,
         ''Warning: Received result for unknown task '' @ str_opt (task_id m)])
   \<and> (hashable (dict_get (payload m) ''vote_topic'') \<longrightarrow>
       (\<exists>s'. process_vote_message tag m s = Inr s'
            \<and> tasks s' = tasks s
            \<and> tally_of s' (dict_key (dict_get (payload m) ''vote_topic'')) (task_id m)
                = Some (record_ballot (sender_id m) (dict_get (payload m) ''vote'')
                         (tally_of s (dict_key (dict_get (payload m) ''vote_topic''))
                            (task_id m)))))"
proof (intro conjI impI)
  assume u: "unknown_task s m"
  then show "tasks (collect_results tag m s) = tasks s"
    by (auto simp: unknown_task_def collect_results_tasks split: option.splits)
  show "active_votes (collect_results tag m s) = active_votes s" by simp
  from u show "stdout (collect_results tag m s) = stdout s @
        ['' [x] Received result for task '' @ str_opt (task_id m)
           @ '' from agent '' @ sender_id m,
         ''Warning: Received result for unknown task '' @ str_opt (task_id m)]"
    by (auto simp: unknown_task_def collect_results_def Let_def split: option.splits)
next
  assume "hashable (dict_get (payload m) ''vote_topic'')"
  from process_vote_effect [OF this, of tag s]
  show "\<exists>s'. process_vote_message tag m s = Inr s'
            \<and> tasks s' = tasks s
            \<and> tally_of s' (dict_key (dict_get (payload m) ''vote_topic'')) (task_id m)
                = Some (record_ballot (sender_id m) (dict_get (payload m) ''vote'')
                         (tally_of s (dict_key (dict_get (payload m) ''vote_topic''))
                            (task_id m)))"
    by auto
qed

theorem unknown_result_dropped_votes_unchecked_witness:
  "unknown_task orch0 (result_msg ''ghost'' ''success'')
   \<and> tasks (collect_results 1 (result_msg ''ghost'' ''success'') orch0) = tasks orch0
   \<and> active_votes (collect_results 1 (result_msg ''ghost'' ''success'') orch0) = active_votes orch0
   \<and> stdout (collect_results 1 (result_msg ''ghost'' ''success'') orch0) = stdout orch0 @
        ['' [x] Received result for task ghost from agent agent_a'',
         ''Warning: Received result for unknown task ghost'']
   \<and> hashable (dict_get (payload ghost_vote) ''vote_topic'')
   \<and> (\<exists>s'. process_vote_message 1 ghost_vote orch0 = Inr s'
            \<and> tasks s' = tasks orch0
            \<and> tally_of s' (JStr ''t'') (Some ''ghost'')
                = Some \<lparr>voted_agents = [''sec1''], votes = [JStr ''Approve'']\<rparr>)"
proof -
  have h1: "unknown_task orch0 (result_msg ''ghost'' ''success'')"
    by (simp add: unknown_task_def result_msg_def orch0_def init_orchestrator_def)
  have h2: "hashable (dict_get (payload ghost_vote) ''vote_topic'')"
    by (simp add: ghost_vote_def dict_get_def)
  have e: "record_ballot (sender_id ghost_vote) (dict_get (payload ghost_vote) ''vote'')
             (tally_of orch0 (JStr ''t'') (Some ''ghost''))
           = \<lparr>voted_agents = [''sec1''], votes = [JStr ''Approve'']\<rparr>"
    by (simp add: record_ballot_def ghost_vote_def dict_get_def tally_of_def orch0_def
          init_orchestrator_def)
  have k: "dict_key (dict_get (payload ghost_vote) ''vote_topic'') = JStr ''t''"
    "task_id ghost_vote = Some ''ghost''"
    by (simp_all add: ghost_vote_def dict_get_def)
  note th1 = unknown_result_dropped_votes_unchecked
      [where s = orch0 and m = "result_msg ''ghost'' ''success''" and tag = 1]
  note th2 = unknown_result_dropped_votes_unchecked
      [where s = orch0 and m = ghost_vote and tag = 1]
  from th1 [THEN conjunct1] h1 have c1: "tasks (collect_results 1 (result_msg ''ghost'' ''success'') orch0) = tasks orch0
      \<and> active_votes (collect_results 1 (result_msg ''ghost'' ''success'') orch0) = active_votes orch0
      \<and> stdout (collect_results 1 (result_msg ''ghost'' ''success'') orch0) = stdout orch0 @
        ['' [x] Received result for task ghost from agent agent_a'',
         ''Warning: Received result for unknown task ghost'']"
    by (simp add: result_msg_def str_opt_def)
  from th2 [THEN conjunct2] h2 have c2: "\<exists>s'. process_vote_message 1 ghost_vote orch0 = Inr s'
            \<and> tasks s' = tasks orch0
            \<and> tally_of s' (JStr ''t'') (Some ''ghost'')
                = Some \<lparr>voted_agents = [''sec1''], votes = [JStr ''Approve'']\<rparr>"
    by (simp only: e k)
  from h1 h2 c1 c2 show ?thesis by blast
qed

text \<open>
  Counterexample to C2 as stated: on a fresh orchestrator, which has issued no task, a
  vote for the task id \<^verbatim>\<open>ghost\<close> is recorded, so the tallies do change.
\<close>

theorem vote_for_unissued_task_recorded:
  "tasks orch0 ''ghost'' = None
   \<and> tally_of orch0 (JStr ''t'') (Some ''ghost'') = None
   \<and> \<not> isl (process_vote_message 1 ghost_vote orch0)
   \<and> tally_of (projr (process_vote_message 1 ghost_vote orch0)) (JStr ''t'') (Some ''ghost'')
       = Some \<lparr>voted_agents = [''sec1''], votes = [JStr ''Approve'']\<rparr>"
  by (simp add: orch0_def init_orchestrator_def ghost_vote_def process_vote_message_def
        Let_def dict_get_def tally_of_def print_def basic_ack_def)

subsection \<open>C3: a failing handler\<close>

text \<open>
  Claim C3 fails on the code. With no API key in the environment the collaborator ends
  with \<^verbatim>\<open>sys.exit(1)\<close>; \<^verbatim>\<open>SystemExit\<close> passes the handler's
  \<^verbatim>\<open>except Exception\<close> and the callback, which has no \<^verbatim>\<open>try\<close>, and ends the
  consume loop with the second task unprocessed. A task without details raises
  \<^verbatim>\<open>AttributeError\<close> before the handler's \<^verbatim>\<open>try\<close> block is entered, with the
  same end.
\<close>

theorem handler_failure_escapes_consume_loop:
  "consume_tasks (quality_handle_task world_no_key)
     [(1, review_task ''t1''), (2, review_task ''t2'')] quality0 = Inl (SystemExit 1)
   \<and> consume_tasks (quality_handle_task world_ok)
     [(1, no_details_task), (2, review_task ''t2'')] quality0
       = Inl (AttributeError ([CHR 0x27] @ ''NoneType'' @ [CHR 0x27] @ '' object has no attribute ''
                                @ [CHR 0x27] @ ''get'' @ [CHR 0x27]))"
  by (simp add: process_task_message_def quality_handle_task_def review_task_def
        no_details_task_def world_no_key_def world_ok_def quality0_def
        generate_llm_response_def load_prompt_template_def generate_gemini_response_def
        dict_get_def dict_get_default_def Let_def)

subsection \<open>C4: the task id of published messages\<close>

text \<open>
  Claim C4, amended. \<^verbatim>\<open>send_results\<close> and \<^verbatim>\<open>send_vote\<close> publish an envelope
  whose \<^verbatim>\<open>task_id\<close> is the task id they are called with. \<^verbatim>\<open>assign_task\<close>
  publishes a TASK envelope that carries the generated id, the one it enters in the
  registry, in \<^verbatim>\<open>payload["task_id"]\<close>, and an agent that handles this envelope to
  the end sends its result under that id. Neither sender checks the id against the
  registry.
\<close>

theorem task_id_carried_by_results_and_votes:
  "published (send_results tid results_payload a) = published a @
      [(RESULT_EXCHANGE, self_orchestrator_id a,
        to_json \<lparr>sender_id = self_agent_id a, receiver_id = Some (self_orchestrator_id a),
                 message_type = ''RESULT'', payload = results_payload, task_id = Some tid\<rparr>)]
   \<and> published (send_vote tid vote vote_topic a) = published a @
      [(VOTE_EXCHANGE, ''vote.'' @ vote_topic,
        to_json \<lparr>sender_id = self_agent_id a, receiver_id = None, message_type = ''VOTE'',
                 payload = [(''vote_topic'', JStr vote_topic), (''vote'', vote)],
                 task_id = Some tid\<rparr>)]
   \<and> published (snd (assign_task uid aid task_payload task_type s)) = published s @
      [(TASK_EXCHANGE, aid,
        to_json \<lparr>sender_id = orchestrator_id s, receiver_id = Some aid,
                 message_type = ''TASK'',
                 payload = [(''task_id'', JStr uid), (''type'', JStr task_type),
                            (''details'', JObj task_payload)],
                 task_id = None\<rparr>)]
   \<and> tasks (snd (assign_task uid aid task_payload task_type s)) uid \<noteq> None
   \<and> (process_task_message handle_task tag
         \<lparr>sender_id = orchestrator_id s, receiver_id = Some aid, message_type = ''TASK'',
          payload = [(''task_id'', JStr uid), (''type'', JStr task_type),
                     (''details'', JObj task_payload)],
          task_id = None\<rparr> a = Inr a'
        \<longrightarrow> (\<exists>task_results a3. a' = send_results uid task_results a3))"
proof (intro conjI impI)
  assume "process_task_message handle_task tag
         \<lparr>sender_id = orchestrator_id s, receiver_id = Some aid, message_type = ''TASK'',
          payload = [(''task_id'', JStr uid), (''type'', JStr task_type),
                     (''details'', JObj task_payload)],
          task_id = None\<rparr> a = Inr a'"
  then show "\<exists>task_results a3. a' = send_results uid task_results a3"
    by (auto simp: process_task_message_def Let_def split: sum.splits)
qed (simp_all add: send_results_def send_vote_def assign_task_def Let_def)

theorem task_id_carried_by_results_and_votes_witness:
  "process_task_message (quality_handle_task world_ok) 1
         \<lparr>sender_id = orchestrator_id orch0, receiver_id = Some ''quality_agent_1'',
          message_type = ''TASK'',
          payload = [(''task_id'', JStr ''d1''), (''type'', JStr ''review_code''),
                     (''details'', JObj [(''code_diff'', JStr ''x'')])],
          task_id = None\<rparr> quality0
     = Inr (projr (process_task_message (quality_handle_task world_ok) 1 (review_task ''d1'') quality0))
   \<and> (\<exists>task_results a3.
         projr (process_task_message (quality_handle_task world_ok) 1 (review_task ''d1'') quality0)
           = send_results ''d1'' task_results a3)"
proof -
  let ?a = "projr (process_task_message (quality_handle_task world_ok) 1 (review_task ''d1'') quality0)"
  have h: "process_task_message (quality_handle_task world_ok) 1
         \<lparr>sender_id = orchestrator_id orch0, receiver_id = Some ''quality_agent_1'',
          message_type = ''TASK'',
          payload = [(''task_id'', JStr ''d1''), (''type'', JStr ''review_code''),
                     (''details'', JObj [(''code_diff'', JStr ''x'')])],
          task_id = None\<rparr> quality0 = Inr ?a"
    by (simp add: process_task_message_def quality_handle_task_def review_task_def
          world_ok_def quality0_def orch0_def init_orchestrator_def
          generate_llm_response_def load_prompt_template_def generate_gemini_response_def
          dict_get_def dict_get_default_def Let_def)
  from task_id_carried_by_results_and_votes
    [where handle_task = "quality_handle_task world_ok" and tag = 1 and s = orch0
       and aid = "''quality_agent_1''" and uid = "''d1''" and task_type = "''review_code''"
       and task_payload = "[(''code_diff'', JStr ''x'')]" and a = quality0 and a' = ?a] h
  show ?thesis by blast
qed

text \<open>
  Counterexample to C4 as stated: the TASK envelope that \<^verbatim>\<open>assign_task\<close> publishes
  for the generated id \<^verbatim>\<open>d1\<close> has the envelope field \<^verbatim>\<open>task_id\<close> null.
\<close>

theorem task_envelope_has_no_task_id:
  "published (snd (assign_task ''d1'' ''agent_a'' [(''code_diff'', JStr ''x'')] ''review_code'' orch0))
     = [(''task_exchange'', ''agent_a'', to_json task_d1)]
   \<and> task_id task_d1 = None
   \<and> to_json task_d1 =
       ''{\"sender_id\": \"orchestrator_1\", \"receiver_id\": \"agent_a\", \"message_type\": \"TASK\", \"payload\": {\"task_id\": \"d1\", \"type\": \"review_code\", \"details\": {\"code_diff\": \"x\"}}, \"task_id\": null}''"
  by (simp add: assign_task_def Let_def orch0_def init_orchestrator_def task_d1_def
        TASK_EXCHANGE_def send_message_def print_def to_json_def asdict_def opt_json_def
        dumps_str_def dumps_char_def)

subsection \<open>C5: a second vote of the same agent\<close>

text \<open>
  Claim C5. When the sender of a vote is already among the voted agents of the key the
  vote addresses, the callback returns and leaves every tally as it was. In every state
  an orchestrator reaches from its start, the voted agents of each key are pairwise
  distinct and there are as many votes as voted agents: each agent contributes at most
  one vote per key.
\<close>

theorem second_vote_ignored:
  "(hashable (dict_get (payload m) ''vote_topic'')
      \<and> tally_of s (dict_key (dict_get (payload m) ''vote_topic'')) (task_id m) = Some tal
      \<and> sender_id m \<in> set (voted_agents tal) \<longrightarrow>
      (\<exists>s'. process_vote_message tag m s = Inr s' \<and> active_votes s' = active_votes s))
   \<and> (run evs (init_orchestrator oid) = Inr s \<and> tally_of s key tid = Some tal \<longrightarrow>
        distinct (voted_agents tal) \<and> length (votes tal) = length (voted_agents tal))"
proof (intro conjI impI)
  assume "hashable (dict_get (payload m) ''vote_topic'')
      \<and> tally_of s (dict_key (dict_get (payload m) ''vote_topic'')) (task_id m) = Some tal
      \<and> sender_id m \<in> set (voted_agents tal)"
  then show "\<exists>s'. process_vote_message tag m s = Inr s' \<and> active_votes s' = active_votes s"
    using duplicate_vote_unchanged [of m s tal tag] by blast
next
  assume a: "run evs (init_orchestrator oid) = Inr s \<and> tally_of s key tid = Some tal"
  then have "tally_ok tal"
    using run_tallies_ok [of evs "init_orchestrator oid" s key tid tal]
    by (simp add: init_no_tallies)
  then show "distinct (voted_agents tal)" "length (votes tal) = length (voted_agents tal)"
    by (simp_all add: tally_ok_def)
qed

theorem second_vote_ignored_witness:
  "hashable (dict_get (payload (vote_msg ''sec1'' ''Approve'')) ''vote_topic'')
   \<and> tally_of scenario_c (dict_key (dict_get (payload (vote_msg ''sec1'' ''Approve'')) ''vote_topic''))
        (task_id (vote_msg ''sec1'' ''Approve''))
       = Some \<lparr>voted_agents = [''sec1''], votes = [JStr ''Approve'']\<rparr>
   \<and> sender_id (vote_msg ''sec1'' ''Approve'')
        \<in> set (voted_agents \<lparr>voted_agents = [''sec1''], votes = [JStr ''Approve'']\<rparr>)
   \<and> (\<exists>s'. process_vote_message 2 (vote_msg ''sec1'' ''Approve'') scenario_c = Inr s'
           \<and> active_votes s' = active_votes scenario_c)
   \<and> run events_c (init_orchestrator ''orchestrator_1'')
       = Inr (projr (run events_c (init_orchestrator ''orchestrator_1'')))
   \<and> tally_of (projr (run events_c (init_orchestrator ''orchestrator_1'')))
        (JStr ''approve_code_fix'') (Some ''t1'')
       = Some \<lparr>voted_agents = [''sec1''], votes = [JStr ''Approve'']\<rparr>
   \<and> distinct (voted_agents \<lparr>voted_agents = [''sec1''], votes = [JStr ''Approve'']\<rparr>)
   \<and> length (votes \<lparr>voted_agents = [''sec1''], votes = [JStr ''Approve'']\<rparr>)
       = length (voted_agents \<lparr>voted_agents = [''sec1''], votes = [JStr ''Approve'']\<rparr>)"
proof -
  let ?m = "vote_msg ''sec1'' ''Approve''"
  let ?tal = "\<lparr>voted_agents = [''sec1''], votes = [JStr ''Approve'']\<rparr>"
  let ?s = "projr (run events_c (init_orchestrator ''orchestrator_1''))"
  have h1: "hashable (dict_get (payload ?m) ''vote_topic'')"
    by (simp add: vote_msg_def dict_get_def)
  have h2: "tally_of scenario_c (dict_key (dict_get (payload ?m) ''vote_topic'')) (task_id ?m)
              = Some ?tal"
    by (simp add: scenario_c_def scen_defs)
  have h3: "sender_id ?m \<in> set (voted_agents ?tal)" by (simp add: vote_msg_def)
  have h4: "run events_c (init_orchestrator ''orchestrator_1'') = Inr ?s"
    by (simp add: events_c_def scen_defs)
  have h5: "tally_of ?s (JStr ''approve_code_fix'') (Some ''t1'') = Some ?tal"
    by (simp add: events_c_def scen_defs)
  note th1 = second_vote_ignored [where m = ?m and s = scenario_c and tal = ?tal and tag = 2]
  note th2 = second_vote_ignored [where evs = events_c and oid = "''orchestrator_1''"
      and s = ?s and key = "JStr ''approve_code_fix''" and tid = "Some ''t1''" and tal = ?tal]
  from th1 h1 h2 h3
  have c1: "\<exists>s'. process_vote_message 2 ?m scenario_c = Inr s'
           \<and> active_votes s' = active_votes scenario_c" by blast
  from th2 h4 h5
  have c2: "distinct (voted_agents ?tal) \<and> length (votes ?tal) = length (voted_agents ?tal)"
    by blast
  from h1 h2 h3 h4 h5 c1 c2 show ?thesis by blast
qed

subsection \<open>C6: the order of the votes\<close>

text \<open>
  Claim C6. Let the deliveries \<open>ds\<close> be votes for one key, their senders pairwise
  distinct, and let \<open>ds'\<close> deliver the same messages in another order. From any
  state, both sequences are processed without an exception, and
  \<^verbatim>\<open>coordinate_consensus\<close> then gives the same status, the same
  \<^verbatim>\<open>vote_counts\<close> as a map, the same set of consensus values and the same
  \<^verbatim>\<open>total_votes\<close>.
\<close>

theorem consensus_order_independent:
  assumes "\<forall>(tag, m) \<in> set ds.
             dict_get (payload m) ''vote_topic'' = JStr vote_topic \<and> task_id m = Some tid"
    and "distinct (map (\<lambda>(tag, m). sender_id m) ds)"
    and "mset (map snd ds') = mset (map snd ds)"
  shows "\<exists>s1 s2. process_votes ds s = Inr s1 \<and> process_votes ds' s = Inr s2
           \<and> map_of (fst (coordinate_consensus vote_topic tid s1)) ''status''
               = map_of (fst (coordinate_consensus vote_topic tid s2)) ''status''
           \<and> vote_counts_map (fst (coordinate_consensus vote_topic tid s1))
               = vote_counts_map (fst (coordinate_consensus vote_topic tid s2))
           \<and> consensus_values (fst (coordinate_consensus vote_topic tid s1))
               = consensus_values (fst (coordinate_consensus vote_topic tid s2))
           \<and> map_of (fst (coordinate_consensus vote_topic tid s1)) ''total_votes''
               = map_of (fst (coordinate_consensus vote_topic tid s2)) ''total_votes''"
proof -
  let ?f = "\<lambda>old m. Some (record_ballot (sender_id m) (dict_get (payload m) ''vote'') old)"
  let ?old = "tally_of s (JStr vote_topic) (Some tid)"
  have a1: "\<forall>(tag, m) \<in> set ds.
             dict_get (payload m) ''vote_topic'' = JStr vote_topic \<and> task_id m = Some tid"
    by (rule assms(1))
  have "set (map snd ds') = set (map snd ds)" using assms(3) by (rule mset_eq_setD)
  with a1 have a2: "\<forall>(tag, m) \<in> set ds'.
             dict_get (payload m) ''vote_topic'' = JStr vote_topic \<and> task_id m = Some tid"
    by force
  from process_votes_tally [OF a1, of s] obtain s1 where
    s1: "process_votes ds s = Inr s1"
    and t1: "tally_of s1 (JStr vote_topic) (Some tid) = foldl ?f ?old (map snd ds)" by blast
  from process_votes_tally [OF a2, of s] obtain s2 where
    s2: "process_votes ds' s = Inr s2"
    and t2: "tally_of s2 (JStr vote_topic) (Some tid) = foldl ?f ?old (map snd ds')" by blast
  have d1: "distinct (map sender_id (map snd ds))"
    using assms(2) by (simp add: split_def comp_def)
  have "mset (map sender_id (map snd ds')) = mset (map sender_id (map snd ds))"
    using assms(3) by (metis mset_map)
  then have d2: "distinct (map sender_id (map snd ds'))"
    using d1 by (metis mset_eq_imp_distinct_iff)
  have "mset (recorded_votes s1 vote_topic tid) = mset (recorded_votes s2 vote_topic tid)"
    unfolding recorded_votes_tally t1 t2 ballots_votes [OF d1] ballots_votes [OF d2]
    using assms(3) by simp
  from consensus_depends_on_mset [OF this] s1 s2 show ?thesis by blast
qed

theorem consensus_order_independent_witness:
  "distinct (map (\<lambda>(tag, m). sender_id m) votes_a)
   \<and> mset (map snd votes_a_reordered) = mset (map snd votes_a)
   \<and> (\<exists>s1 s2. process_votes votes_a orch0 = Inr s1 \<and> process_votes votes_a_reordered orch0 = Inr s2
           \<and> map_of (fst (coordinate_consensus ''approve_code_fix'' ''t1'' s1)) ''status''
               = map_of (fst (coordinate_consensus ''approve_code_fix'' ''t1'' s2)) ''status''
           \<and> vote_counts_map (fst (coordinate_consensus ''approve_code_fix'' ''t1'' s1))
               = vote_counts_map (fst (coordinate_consensus ''approve_code_fix'' ''t1'' s2))
           \<and> consensus_values (fst (coordinate_consensus ''approve_code_fix'' ''t1'' s1))
               = consensus_values (fst (coordinate_consensus ''approve_code_fix'' ''t1'' s2))
           \<and> map_of (fst (coordinate_consensus ''approve_code_fix'' ''t1'' s1)) ''total_votes''
               = map_of (fst (coordinate_consensus ''approve_code_fix'' ''t1'' s2)) ''total_votes'')"
proof -
  have h1: "\<forall>(tag, m) \<in> set votes_a.
      dict_get (payload m) ''vote_topic'' = JStr ''approve_code_fix'' \<and> task_id m = Some ''t1''"
    by (simp add: votes_a_def vote_msg_def dict_get_def)
  have h2: "distinct (map (\<lambda>(tag, m). sender_id m) votes_a)"
    by (simp add: votes_a_def vote_msg_def)
  have h3: "mset (map snd votes_a_reordered) = mset (map snd votes_a)"
    by (simp add: votes_a_def votes_a_reordered_def add_mset_commute)
  from consensus_order_independent [OF h1 h2 h3, of orch0] h2 h3 show ?thesis by blast
qed

subsection \<open>C7: the round trip of the envelope\<close>

text \<open>
  Claim C7 fails on the code: the declaration of \<^verbatim>\<open>AgentMessage\<close> puts the field
  \<^verbatim>\<open>message_type\<close>, which has no default, behind \<^verbatim>\<open>receiver_id\<close>, which
  has one, and the \<^verbatim>\<open>@dataclass\<close> decorator answers that with a
  \<^verbatim>\<open>TypeError\<close> when the class statement runs. No message can be built, encoded or
  decoded. (For the class the declaration describes, the round trip is lemma
  \<open>from_json_to_json\<close> above.)
\<close>

theorem agent_message_declaration_rejected:
  "dataclass_init_check False AgentMessage_fields
     = Inl (TypeError (''non-default argument '' @ [CHR 0x27] @ ''message_type'' @ [CHR 0x27]
                         @ '' follows default argument''))"
  by (simp add: AgentMessage_fields_def repr_str_def repr_char_def repr_printable_def Let_def)

subsection \<open>C8: \<^verbatim>\<open>assign_task\<close>\<close>

text \<open>
  Claim C8, amended. \<^verbatim>\<open>assign_task\<close> returns the UUID string drawn in the call and
  enters it in the registry without looking whether the registry already holds it. So
  for every sequence of calls on one instance the returned ids are the draws, in call
  order, and at the end the registry holds under each id the record of the last call
  that drew it (and what it held before, under an id no call drew). When the draws are
  pairwise distinct, every call finds its own record there at the end. Immediately
  after a call the registry holds for the returned id the target agent, the status
  \<^verbatim>\<open>"assigned"\<close> and no results, and one message more has been published: a TASK
  envelope addressed to the agent, on the task exchange, with the agent's id as routing
  key.
\<close>

theorem assign_task_returns_draw_and_records:
  "fst (assign_all calls s) = map fst calls
   \<and> tasks (snd (assign_all calls s)) u =
       (case map_of (rev calls) u of
          None \<Rightarrow> tasks s u
        | Some (a, p, t) \<Rightarrow> Some \<lparr>agent_id = a, status = ''assigned'', results = None\<rparr>)
   \<and> (distinct (map fst calls) \<and> (uid, aid, task_payload, task_type) \<in> set calls \<longrightarrow>
        tasks (snd (assign_all calls s)) uid
          = Some \<lparr>agent_id = aid, status = ''assigned'', results = None\<rparr>)
   \<and> fst (assign_task uid aid task_payload task_type s) = uid
   \<and> tasks (snd (assign_task uid aid task_payload task_type s)) uid
        = Some \<lparr>agent_id = aid, status = ''assigned'', results = None\<rparr>
   \<and> published (snd (assign_task uid aid task_payload task_type s)) = published s @
           [(TASK_EXCHANGE, aid,
             to_json \<lparr>sender_id = orchestrator_id s, receiver_id = Some aid,
                      message_type = ''TASK'',
                      payload = [(''task_id'', JStr uid), (''type'', JStr task_type),
                                 (''details'', JObj task_payload)],
                      task_id = None\<rparr>)]"
proof (intro conjI impI)
  show "fst (assign_all calls s) = map fst calls" by (rule assign_all_fst)
  show "tasks (snd (assign_all calls s)) u =
       (case map_of (rev calls) u of
          None \<Rightarrow> tasks s u
        | Some (a, p, t) \<Rightarrow> Some \<lparr>agent_id = a, status = ''assigned'', results = None\<rparr>)"
    by (rule assign_all_tasks_last)
  assume "distinct (map fst calls) \<and> (uid, aid, task_payload, task_type) \<in> set calls"
  then show "tasks (snd (assign_all calls s)) uid
          = Some \<lparr>agent_id = aid, status = ''assigned'', results = None\<rparr>"
    using assign_all_tasks [of calls uid aid task_payload task_type s] by simp
qed (simp_all add: assign_task_def Let_def)

text \<open>Two calls with different draws: each finds its record in the registry.\<close>

theorem assign_task_returns_draw_and_records_witness:
  "distinct (map fst calls0)
   \<and> (''d2'', ''agent_b'', [], ''review'') \<in> set calls0
   \<and> fst (assign_all calls0 orch0) = [''d1'', ''d2'']
   \<and> tasks (snd (assign_all calls0 orch0)) ''d2''
       = Some \<lparr>agent_id = ''agent_b'', status = ''assigned'', results = None\<rparr>"
proof -
  have h: "distinct (map fst calls0)" by (simp add: calls0_def)
  have m: "(''d2'', ''agent_b'', [], ''review'') \<in> set calls0" by (simp add: calls0_def)
  note th = assign_task_returns_draw_and_records
      [where calls = calls0 and s = orch0 and uid = "''d2''" and aid = "''agent_b''"
         and task_payload = "[]" and task_type = "''review''"]
  from th have f: "fst (assign_all calls0 orch0) = map fst calls0" by blast
  from th h m have t: "tasks (snd (assign_all calls0 orch0)) ''d2''
       = Some \<lparr>agent_id = ''agent_b'', status = ''assigned'', results = None\<rparr>" by blast
  from f have f': "fst (assign_all calls0 orch0) = [''d1'', ''d2'']" by (simp add: calls0_def)
  from h m f' t show ?thesis by blast
qed

text \<open>
  Counterexample to C8 as stated: two calls on a fresh orchestrator in which
  \<^verbatim>\<open>uuid4\<close> draws the same value. Both return the same id, so the returned ids are
  not pairwise distinct, and the second call has replaced the record of the first: the
  registry names \<^verbatim>\<open>agent_b\<close> for the id that was returned for \<^verbatim>\<open>agent_a\<close>.
\<close>

theorem repeated_draw_reuses_id:
  "fst (assign_all calls_dup orch0)
     = [''3f2b8c1e-5d4a-4f6b-9c7d-1a2b3c4d5e6f'', ''3f2b8c1e-5d4a-4f6b-9c7d-1a2b3c4d5e6f'']
   \<and> \<not> distinct (fst (assign_all calls_dup orch0))
   \<and> tasks (snd (assign_all calls_dup orch0)) ''3f2b8c1e-5d4a-4f6b-9c7d-1a2b3c4d5e6f''
       = Some \<lparr>agent_id = ''agent_b'', status = ''assigned'', results = None\<rparr>"
  unfolding assign_all_fst assign_all_tasks_last by (simp add: calls_dup_def)

subsection \<open>C9: from assigned to completed\<close>

text \<open>
  Claim C9, amended. For a task id in the registry: processing a message of the results
  queue that carries the id, whatever the type of the message, sets the status to
  \<^verbatim>\<open>"completed"\<close> and the results to the payload of the message, whatever the
  status was; a second such message is applied the same way, so the stored results are
  those of the last one. A run in which no message carrying the id is delivered to the
  results callback leaves the status \<^verbatim>\<open>"assigned"\<close> of the task; when the id is
  not drawn again either, it leaves the whole record of the task as it is.
\<close>

theorem delivery_completes_task:
  "(tasks s tid = Some t \<and> task_id m = Some tid \<longrightarrow>
      tasks (collect_results tag m s) tid
        = Some (t\<lparr>status := ''completed'', results := Some (payload m)\<rparr>))
   \<and> (tasks s tid = Some t \<and> task_id m = Some tid \<and> task_id m' = Some tid \<longrightarrow>
      tasks (collect_results tag' m' (collect_results tag m s)) tid
        = Some (t\<lparr>status := ''completed'', results := Some (payload m')\<rparr>))
   \<and> (run evs s = Inr s' \<and> tasks s tid = Some t \<and> status t = ''assigned''
        \<and> (\<forall>e \<in> set evs. \<not> delivery_for tid e) \<longrightarrow>
      (\<exists>t'. tasks s' tid = Some t' \<and> status t' = ''assigned''))
   \<and> (run evs s = Inr s' \<and> tasks s tid = Some t \<and> (\<forall>e \<in> set evs. \<not> delivery_for tid e)
        \<and> tid \<notin> set (assigned_ids evs) \<longrightarrow> tasks s' tid = Some t)"
proof (intro conjI impI)
  assume "tasks s tid = Some t \<and> task_id m = Some tid"
  then show "tasks (collect_results tag m s) tid
        = Some (t\<lparr>status := ''completed'', results := Some (payload m)\<rparr>)"
    by (simp add: collect_results_tasks)
next
  assume "tasks s tid = Some t \<and> task_id m = Some tid \<and> task_id m' = Some tid"
  then show "tasks (collect_results tag' m' (collect_results tag m s)) tid
        = Some (t\<lparr>status := ''completed'', results := Some (payload m')\<rparr>)"
    by (simp add: collect_results_tasks)
next
  assume "run evs s = Inr s' \<and> tasks s tid = Some t \<and> status t = ''assigned''
        \<and> (\<forall>e \<in> set evs. \<not> delivery_for tid e)"
  then show "\<exists>t'. tasks s' tid = Some t' \<and> status t' = ''assigned''"
    using run_keeps_assigned [of evs s s' tid t] by simp
next
  assume "run evs s = Inr s' \<and> tasks s tid = Some t \<and> (\<forall>e \<in> set evs. \<not> delivery_for tid e)
        \<and> tid \<notin> set (assigned_ids evs)"
  then show "tasks s' tid = Some t"
    using run_keeps_task [of evs s s' tid] by simp
qed

text \<open>
  The instances, on the orchestrator of scenario D, where \<^verbatim>\<open>d1\<close> is assigned to
  \<^verbatim>\<open>agent_a\<close>: a result and then a second one with another payload; a run with a
  vote and a new assignment that draws \<^verbatim>\<open>d1\<close> again; a run that spawns an
  agent and handles a vote and a result for another id.
\<close>

theorem delivery_completes_task_witness:
  "tasks scenario_d ''d1'' = Some \<lparr>agent_id = ''agent_a'', status = ''assigned'', results = None\<rparr>
   \<and> task_id (result_msg ''d1'' ''success'') = Some ''d1''
   \<and> tasks (collect_results 7 (result_msg ''d1'' ''success'') scenario_d) ''d1''
       = Some \<lparr>agent_id = ''agent_a'', status = ''completed'',
               results = Some [(''status'', JStr ''success'')]\<rparr>
   \<and> tasks (collect_results 8 (result_msg ''d1'' ''error'')
              (collect_results 7 (result_msg ''d1'' ''success'') scenario_d)) ''d1''
       = Some \<lparr>agent_id = ''agent_a'', status = ''completed'',
               results = Some [(''status'', JStr ''error'')]\<rparr>
   \<and> run events_redraw scenario_d = Inr (projr (run events_redraw scenario_d))
   \<and> (\<exists>t'. tasks (projr (run events_redraw scenario_d)) ''d1'' = Some t'
            \<and> status t' = ''assigned'')
   \<and> run events_d scenario_d = Inr (projr (run events_d scenario_d))
   \<and> ''d1'' \<notin> set (assigned_ids events_d)
   \<and> tasks (projr (run events_d scenario_d)) ''d1''
       = Some \<lparr>agent_id = ''agent_a'', status = ''assigned'', results = None\<rparr>"
proof -
  let ?t = "\<lparr>agent_id = ''agent_a'', status = ''assigned'', results = None\<rparr>"
  let ?sr = "projr (run events_redraw scenario_d)"
  let ?sd = "projr (run events_d scenario_d)"
  have h1: "tasks scenario_d ''d1'' = Some ?t" by (simp add: scenario_d_def)
  have h2: "task_id (result_msg ''d1'' ''success'') = Some ''d1''"
    and h3: "task_id (result_msg ''d1'' ''error'') = Some ''d1''" by (simp_all add: result_msg_def)
  have h4: "run events_d scenario_d = Inr ?sd" using run_events_d by simp
  have h5: "\<forall>e \<in> set events_d. \<not> delivery_for ''d1'' e"
    by (simp add: events_d_def result_msg_def)
  have h6: "''d1'' \<notin> set (assigned_ids events_d)" by (simp add: events_d_def)
  have h7: "run events_redraw scenario_d = Inr ?sr" using run_events_redraw by simp
  have h8: "\<forall>e \<in> set events_redraw. \<not> delivery_for ''d1'' e"
    by (simp add: events_redraw_def)
  have h9: "status ?t = ''assigned''" by simp
  note tha = delivery_completes_task [where s = scenario_d and tid = "''d1''" and t = ?t
      and m = "result_msg ''d1'' ''success''" and tag = 7
      and m' = "result_msg ''d1'' ''error''" and tag' = 8
      and evs = events_d and s' = ?sd]
  note thb = delivery_completes_task [where s = scenario_d and tid = "''d1''" and t = ?t
      and evs = events_redraw and s' = ?sr]
  from tha h1 h2 have c1: "tasks (collect_results 7 (result_msg ''d1'' ''success'') scenario_d) ''d1''
       = Some \<lparr>agent_id = ''agent_a'', status = ''completed'',
               results = Some [(''status'', JStr ''success'')]\<rparr>"
    by (simp add: result_msg_def)
  from tha h1 h2 h3 have c2: "tasks (collect_results 8 (result_msg ''d1'' ''error'')
              (collect_results 7 (result_msg ''d1'' ''success'') scenario_d)) ''d1''
       = Some \<lparr>agent_id = ''agent_a'', status = ''completed'',
               results = Some [(''status'', JStr ''error'')]\<rparr>"
    by (simp add: result_msg_def)
  from thb h7 h1 h9 h8 have c3: "\<exists>t'. tasks ?sr ''d1'' = Some t' \<and> status t' = ''assigned''"
    by blast
  from tha h4 h1 h5 h6 have c4: "tasks ?sd ''d1'' = Some ?t" by blast
  from h1 h2 c1 c2 h7 c3 h4 h6 c4 show ?thesis by blast
qed

text \<open>
  Counterexample to C9 as stated: on the orchestrator of scenario D a message of type
  \<^verbatim>\<open>AGENT_READY\<close> that carries the task id \<^verbatim>\<open>d1\<close> arrives on the results
  queue. No \<^verbatim>\<open>RESULT\<close> message for \<^verbatim>\<open>d1\<close> has been processed, and the status of
  \<^verbatim>\<open>d1\<close> is \<^verbatim>\<open>"completed"\<close>, its results the payload of the registration.
\<close>

theorem agent_ready_completes_task:
  "tasks scenario_d ''d1'' = Some \<lparr>agent_id = ''agent_a'', status = ''assigned'', results = None\<rparr>
   \<and> message_type ready_d1 = ''AGENT_READY''
   \<and> \<not> result_for ''d1'' (ResultDelivery 1 ready_d1)
   \<and> run [ResultDelivery 1 ready_d1] scenario_d = Inr (collect_results 1 ready_d1 scenario_d)
   \<and> tasks (collect_results 1 ready_d1 scenario_d) ''d1''
       = Some \<lparr>agent_id = ''agent_a'', status = ''completed'',
               results = Some [(''agent_type'', JStr ''quality'')]\<rparr>"
  by (simp add: scenario_d_def ready_d1_def collect_results_tasks)

subsection \<open>C10: the statuses a task takes\<close>

text \<open>
  Claim C10. In every state an orchestrator reaches from its start, by any sequence of
  calls and deliveries, the status of every task in the registry is
  \<^verbatim>\<open>"assigned"\<close> or \<^verbatim>\<open>"completed"\<close>; and a result whose payload has the
  status \<^verbatim>\<open>"error"\<close> sets the status of its task to \<^verbatim>\<open>"completed"\<close> like
  any other.
\<close>

theorem task_status_assigned_or_completed:
  "(run evs (init_orchestrator oid) = Inr s \<and> tasks s tid = Some t \<longrightarrow>
      status t = ''assigned'' \<or> status t = ''completed'')
   \<and> (tasks s tid = Some t \<and> task_id m = Some tid
        \<and> map_of (payload m) ''status'' = Some (JStr ''error'') \<longrightarrow>
      map_option status (tasks (collect_results tag m s) tid) = Some ''completed'')"
proof (intro conjI impI)
  assume a: "run evs (init_orchestrator oid) = Inr s \<and> tasks s tid = Some t"
  then have "statuses_ok s" using run_statuses_ok init_statuses_ok by blast
  with a show "status t = ''assigned'' \<or> status t = ''completed''"
    by (auto simp: statuses_ok_def)
next
  assume "tasks s tid = Some t \<and> task_id m = Some tid
        \<and> map_of (payload m) ''status'' = Some (JStr ''error'')"
  then show "map_option status (tasks (collect_results tag m s) tid) = Some ''completed''"
    by (simp add: collect_results_tasks)
qed

theorem task_status_assigned_or_completed_witness:
  "run events_err (init_orchestrator ''orchestrator_1'')
     = Inr (projr (run events_err (init_orchestrator ''orchestrator_1'')))
   \<and> tasks (projr (run events_err (init_orchestrator ''orchestrator_1''))) ''d1''
       = Some \<lparr>agent_id = ''agent_a'', status = ''completed'',
               results = Some [(''status'', JStr ''error'')]\<rparr>
   \<and> (status \<lparr>agent_id = ''agent_a'', status = ''completed'',
               results = Some [(''status'', JStr ''error'')]\<rparr> = ''assigned''
      \<or> status \<lparr>agent_id = ''agent_a'', status = ''completed'',
               results = Some [(''status'', JStr ''error'')]\<rparr> = ''completed'')
   \<and> tasks scenario_d ''d1'' = Some \<lparr>agent_id = ''agent_a'', status = ''assigned'', results = None\<rparr>
   \<and> task_id (result_msg ''d1'' ''error'') = Some ''d1''
   \<and> map_of (payload (result_msg ''d1'' ''error'')) ''status'' = Some (JStr ''error'')
   \<and> map_option status (tasks (collect_results 1 (result_msg ''d1'' ''error'') scenario_d) ''d1'')
       = Some ''completed''"
proof -
  let ?s = "projr (run events_err (init_orchestrator ''orchestrator_1''))"
  let ?t = "\<lparr>agent_id = ''agent_a'', status = ''completed'',
               results = Some [(''status'', JStr ''error'')]\<rparr>"
  let ?ta = "\<lparr>agent_id = ''agent_a'', status = ''assigned'', results = None\<rparr>"
  have h1: "run events_err (init_orchestrator ''orchestrator_1'') = Inr ?s"
    by (simp add: events_err_def)
  have h2: "tasks ?s ''d1'' = Some ?t"
    by (simp add: events_err_def collect_results_tasks result_msg_def)
  have h3: "tasks scenario_d ''d1'' = Some ?ta" by (simp add: scenario_d_def)
  have h4: "task_id (result_msg ''d1'' ''error'') = Some ''d1''"
    and h5: "map_of (payload (result_msg ''d1'' ''error'')) ''status'' = Some (JStr ''error'')"
    by (simp_all add: result_msg_def)
  note th1 = task_status_assigned_or_completed [of events_err "''orchestrator_1''" ?s "''d1''" ?t]
  note th2 = task_status_assigned_or_completed [of _ _ scenario_d "''d1''" ?ta
      "result_msg ''d1'' ''error''" 1]
  from th1 h1 h2 have "status ?t = ''assigned'' \<or> status ?t = ''completed''" by blast
  moreover from th2 h3 h4 h5
  have "map_option status (tasks (collect_results 1 (result_msg ''d1'' ''error'') scenario_d) ''d1'')
       = Some ''completed''" by blast
  ultimately show ?thesis using h1 h2 h3 h4 h5 by blast
qed

end
